theory Spec2Isabelle
  imports
    Main
    "HOL-Library.AList"
    "HOL-Library.Multiset"
    "HOL-Library.List_Lexorder"
    "HOL-Library.Product_Lexorder"
begin

section \<open>Python values and strings\<close>

text \<open>
  A Python \<open>str\<close> is a sequence of Unicode code points, and \<open>len\<close> counts code points.
  It is modelled as a list of naturals; \<open>u ''abc''\<close> is the ASCII literal \<open>"abc"\<close>.
  The lexicographic order on such lists is the order Python compares strings by.
\<close>

type_synonym pystr = "nat list"

abbreviation u :: "string \<Rightarrow> pystr" where
  "u s \<equiv> map (of_char :: char \<Rightarrow> nat) s"

text \<open>
  The JSON scalars a section field can hold: \<open>null\<close>, booleans, integers and strings.
  \<open>isinstance(v, int)\<close> holds of integers and of booleans (\<open>bool\<close> is a subclass of
  \<open>int\<close>, \<open>True == 1\<close>).
\<close>

datatype pyval = PNone | PBool bool | PInt int | PStr pystr

fun isinstance_int :: "pyval \<Rightarrow> bool" where
  "isinstance_int (PInt i) = True"
| "isinstance_int (PBool b) = True"
| "isinstance_int v = False"

fun int_of :: "pyval \<Rightarrow> int" where
  "int_of (PInt i) = i"
| "int_of (PBool b) = (if b then 1 else 0)"
| "int_of v = 0"

fun truthy :: "pyval \<Rightarrow> bool" where
  "truthy PNone = False"
| "truthy (PBool b) = b"
| "truthy (PInt i) = (i \<noteq> 0)"
| "truthy (PStr s) = (s \<noteq> [])"

fun str_nat :: "nat \<Rightarrow> pystr" where
  "str_nat n = (if n < 10 then [48 + n] else str_nat (n div 10) @ [48 + n mod 10])"

declare str_nat.simps [simp del]

definition str_int :: "int \<Rightarrow> pystr" where
  "str_int i = (if i < 0 then 45 # str_nat (nat (- i)) else str_nat (nat i))"

fun py_str :: "pyval \<Rightarrow> pystr" where
  "py_str PNone = u ''None''"
| "py_str (PBool b) = (if b then u ''True'' else u ''False'')"
| "py_str (PInt i) = str_int i"
| "py_str (PStr s) = s"

text \<open>\<open>sep.join(xs)\<close>\<close>

fun join :: "pystr \<Rightarrow> pystr list \<Rightarrow> pystr" where
  "join sep [] = []"
| "join sep [x] = x"
| "join sep (x # y # ys) = x @ sep @ join sep (y # ys)"

text \<open>
  \<open>str.isspace\<close> on one code point, and \<open>str.strip()\<close>, which removes the leading and
  the trailing whitespace.
\<close>

definition isspace :: "nat \<Rightarrow> bool" where
  "isspace c \<longleftrightarrow>
     (9 \<le> c \<and> c \<le> 13) \<or> (28 \<le> c \<and> c \<le> 32) \<or> c = 133 \<or> c = 160 \<or> c = 5760 \<or>
     (8192 \<le> c \<and> c \<le> 8202) \<or> c = 8232 \<or> c = 8233 \<or> c = 8239 \<or> c = 8287 \<or> c = 12288"

definition strip :: "pystr \<Rightarrow> pystr" where
  "strip s = rev (dropWhile isspace (rev (dropWhile isspace s)))"

section \<open>Sections, snapshots and the diff (bot/formatter.py)\<close>

text \<open>
  A section is the JSON object the scraper returns, read by the code through
  \<open>s.get(key)\<close> and \<open>key in s\<close>. Each field is optional: \<open>None\<close> is an absent key.
  The class number is an integer when present (the tracked class numbers are
  \<open>List[int]\<close>); the enrolment fields are arbitrary scalars, since the diff tests them with
  \<open>isinstance\<close>. The field \<open>section_label\<close> is the key \<open>"section"\<close>.
\<close>

record meeting =
  day :: "pyval option"
  time :: "pyval option"
  room :: "pyval option"

record sect =
  course :: "pystr option"
  section_label :: "pystr option"
  classNbr :: "int option"
  enrolled :: "pyval option"
  enrlCap :: "pyval option"
  remarks :: "pyval option"
  instructor :: "pyval option"
  meetings :: "meeting list"

type_synonym snapshot = "sect list"

record change =
  chg_section :: sect
  old_enrolled :: pyval
  new_enrolled :: pyval

record changes =
  added :: "sect list"
  removed :: "sect list"
  enrollment :: "change list"

text \<open>
  \<open>{s["classNbr"]: s for s in xs if "classNbr" in s}\<close>: a Python dict keeps its keys in
  the order of their first insertion, and a later value for the same key replaces the
  earlier one in place. That is \<open>AList.update\<close> on an association list.
\<close>

definition by_number :: "snapshot \<Rightarrow> (int \<times> sect) list" where
  "by_number xs =
     foldl (\<lambda>d s. case classNbr s of None \<Rightarrow> d | Some k \<Rightarrow> AList.update k s d) [] xs"

definition enrollment_change :: "(int \<times> sect) list \<Rightarrow> int \<times> sect \<Rightarrow> change list" where
  "enrollment_change old_by_number kv =
     (case map_of old_by_number (fst kv) of
        None \<Rightarrow> []
      | Some old_section \<Rightarrow>
          (case (enrolled old_section, enrolled (snd kv)) of
             (Some old_e, Some new_e) \<Rightarrow>
               if isinstance_int old_e \<and> isinstance_int new_e \<and> int_of old_e \<noteq> int_of new_e
               then [\<lparr>chg_section = snd kv, old_enrolled = old_e, new_enrolled = new_e\<rparr>]
               else []
           | _ \<Rightarrow> []))"

definition diff_courses :: "snapshot \<Rightarrow> snapshot \<Rightarrow> changes" where
  "diff_courses old new =
     (let old_by_number = by_number old;
          new_by_number = by_number new
      in \<lparr>added = map snd (filter (\<lambda>kv. map_of old_by_number (fst kv) = None) new_by_number),
          removed = map snd (filter (\<lambda>kv. map_of new_by_number (fst kv) = None) old_by_number),
          enrollment = concat (map (enrollment_change old_by_number) new_by_number)\<rparr>)"

text \<open>\<open>any(changes.values())\<close>\<close>

definition any_changes :: "changes \<Rightarrow> bool" where
  "any_changes c \<longleftrightarrow> added c \<noteq> [] \<or> removed c \<noteq> [] \<or> enrollment c \<noteq> []"

text \<open>\<open>format_section\<close>\<close>

definition get_str :: "pyval option \<Rightarrow> pystr \<Rightarrow> pystr" where
  "get_str v dflt = (case v of None \<Rightarrow> dflt | Some x \<Rightarrow> py_str x)"

definition format_meeting :: "meeting \<Rightarrow> pystr" where
  "format_meeting m =
     get_str (day m) [] @ u '' '' @ get_str (time m) [] @ u '' '' @
     (case room m of
        None \<Rightarrow> u ''Online''
      | Some r \<Rightarrow> if truthy r then py_str r else u ''Online'')"

definition format_section :: "sect \<Rightarrow> pystr" where
  "format_section s =
     (let ms = map format_meeting (meetings s);
          joined = join (u '' | '') (map strip (filter (\<lambda>m. strip m \<noteq> []) ms));
          meetings_str = (if joined \<noteq> [] then joined else u ''No schedule information'')
      in u ''*'' @ (case course s of None \<Rightarrow> u ''N/A'' | Some c \<Rightarrow> c) @ u '' '' @
         (case section_label s of None \<Rightarrow> u ''N/A'' | Some l \<Rightarrow> l) @ u ''* '' @
         u ''(Class '' @ (case classNbr s of None \<Rightarrow> u ''N/A'' | Some k \<Rightarrow> str_int k) @ [41, 10] @
         u ''Enrolled: '' @ get_str (enrolled s) (u ''?'') @ u ''/'' @ get_str (enrlCap s) (u ''?'') @
         u '' | '' @ get_str (remarks s) [] @ [10] @
         u ''Instructor: '' @ get_str (instructor s) (u ''TBA'') @ [10] @
         u ''Schedule: '' @ meetings_str @ [10])"

text \<open>
  \<open>compose_update_lines\<close>. The enrolment changes are sorted here, by the pair
  (course, section label) with \<open>""\<close> for an absent field; Python's \<open>sorted\<close> is stable, and
  so is \<open>sort_key\<close>.
\<close>

definition change_key :: "change \<Rightarrow> pystr \<times> pystr" where
  "change_key c =
     (case course (chg_section c) of None \<Rightarrow> [] | Some x \<Rightarrow> x,
      case section_label (chg_section c) of None \<Rightarrow> [] | Some x \<Rightarrow> x)"

definition sorted_changes :: "change list \<Rightarrow> change list" where
  "sorted_changes cs = sort_key change_key cs"

definition format_change :: "change \<Rightarrow> pystr" where
  "format_change c =
     (let s = chg_section c;
          delta = int_of (new_enrolled c) - int_of (old_enrolled c);
          emoji = (if delta > 0 then [128200] else [128201])
      in emoji @ u '' '' @ (case course s of None \<Rightarrow> u ''?'' | Some x \<Rightarrow> x) @ u '' '' @
         (case section_label s of None \<Rightarrow> u ''?'' | Some x \<Rightarrow> x) @ u '' '' @
         u ''(Class '' @ (case classNbr s of None \<Rightarrow> u ''?'' | Some k \<Rightarrow> str_int k) @ u '') '' @
         [96] @ py_str (old_enrolled c) @ [32, 10145, 65039, 32] @ py_str (new_enrolled c) @ [96] @
         u '' / '' @ get_str (enrlCap s) (u ''?''))"

definition compose_update_lines :: "pystr \<Rightarrow> changes \<Rightarrow> pystr \<Rightarrow> pystr list" where
  "compose_update_lines crs chs title_suffix =
     [u ''*Updates for '' @ crs @ title_suffix @ u ''* '' @ [128226]] @
     (if added chs \<noteq> []
      then [[10] @ u ''*'' @ [127381] @ u '' New sections added*''] @ map format_section (added chs)
      else []) @
     (if removed chs \<noteq> []
      then [[10] @ u ''*'' @ [128465, 65039] @ u '' Sections removed*''] @
           map format_section (removed chs)
      else []) @
     (if enrollment chs \<noteq> []
      then [[10] @ u ''*'' @ [128202] @ u '' Enrollment changes*''] @
           map format_change (sorted_changes (enrollment chs))
      else [])"

section \<open>The cache (models/cache.py, services/cache.py)\<close>

text \<open>
  Time is the reading of \<open>datetime.now()\<close> in microseconds, the resolution of
  \<open>datetime\<close>. The age of an entry is \<open>timedelta.total_seconds()\<close>, a float: the number
  of microseconds divided by \<open>10**6\<close>, and Python's division of two integers gives the
  double nearest to the quotient, ties to the even mantissa. A double is written here as
  a pair \<open>(m, e)\<close> for the number \<open>m * 2 ^ e\<close>, with a mantissa of 53 bits; a
  \<open>timedelta\<close> is far from the range where a double overflows or loses bits of its
  mantissa, so neither is modelled. Python compares a float with an integer exactly.
\<close>

fun bit_length :: "nat \<Rightarrow> nat" where
  "bit_length n = (if n = 0 then 0 else Suc (bit_length (n div 2)))"

declare bit_length.simps [simp del]

definition true_div :: "int \<Rightarrow> int \<Rightarrow> int \<times> int" where
  "true_div n d =
     (if n = 0 then (0, 0)
      else let a = nat \<bar>n\<bar>; b = nat d;
               k = int (bit_length a) - int (bit_length b);
               f = (if (if 0 \<le> k then b * 2 ^ nat k \<le> a else b \<le> a * 2 ^ nat (- k))
                    then k else k - 1);
               e = f - 52;
               num = (if 0 \<le> e then a else a * 2 ^ nat (- e));
               den = (if 0 \<le> e then b * 2 ^ nat e else b);
               m0 = num div den;
               r = num mod den;
               m = (if den < 2 * r \<or> (2 * r = den \<and> odd m0) then m0 + 1 else m0)
           in (sgn n * int m, e))"

definition float_less_int :: "int \<times> int \<Rightarrow> int \<Rightarrow> bool" where
  "float_less_int x i =
     (if 0 \<le> snd x then fst x * 2 ^ nat (snd x) < i else fst x < i * 2 ^ nat (- snd x))"

definition total_seconds :: "int \<Rightarrow> int \<times> int" where
  "total_seconds microseconds = true_div microseconds 1000000"

text \<open>
  \<open>CacheEntry\<close>. The data is what \<open>resp.json()\<close> returned: a list of sections, or
  \<open>None\<close> for the JSON value \<open>null\<close>.
\<close>

record cache_entry =
  ce_course :: pystr
  ce_student_id :: pystr
  data :: "snapshot option"
  timestamp :: int

definition is_valid :: "int \<Rightarrow> cache_entry \<Rightarrow> int \<Rightarrow> bool" where
  "is_valid now e max_age_seconds \<longleftrightarrow>
     float_less_int (total_seconds (now - timestamp e)) max_age_seconds"

text \<open>
  \<open>CacheService\<close>: the dict \<open>self.cache\<close> as an association list in insertion order, and
  the two counters. \<open>get\<close> and \<open>set\<close> take the reading of the clock as an argument.
\<close>

record cache_service =
  cache :: "(pystr \<times> cache_entry) list"
  max_age_seconds :: int
  hits :: nat
  misses :: nat

definition CacheService_init :: "int \<Rightarrow> cache_service" where
  "CacheService_init max_age = \<lparr>cache = [], max_age_seconds = max_age, hits = 0, misses = 0\<rparr>"

definition get_cache_key :: "pystr \<Rightarrow> pystr \<Rightarrow> pystr" where
  "get_cache_key crs sid = crs @ u '':'' @ sid"

definition CacheService_get ::
  "int \<Rightarrow> cache_service \<Rightarrow> pystr \<Rightarrow> pystr \<Rightarrow> snapshot option \<times> cache_service" where
  "CacheService_get now cs crs sid =
     (case map_of (cache cs) (get_cache_key crs sid) of
        Some entry \<Rightarrow>
          if is_valid now entry (max_age_seconds cs)
          then (data entry, cs\<lparr>hits := hits cs + 1\<rparr>)
          else (None, cs\<lparr>misses := misses cs + 1\<rparr>)
      | None \<Rightarrow> (None, cs\<lparr>misses := misses cs + 1\<rparr>))"

definition CacheService_set ::
  "int \<Rightarrow> cache_service \<Rightarrow> pystr \<Rightarrow> pystr \<Rightarrow> snapshot option \<Rightarrow> cache_service" where
  "CacheService_set now cs crs sid d =
     cs\<lparr>cache := AList.update (get_cache_key crs sid)
            \<lparr>ce_course = crs, ce_student_id = sid, data = d, timestamp = now\<rparr> (cache cs)\<rparr>"

text \<open>The item \<open>"total_entries"\<close> of \<open>get_stats\<close>: \<open>len(self.cache)\<close>.\<close>

definition total_entries :: "cache_service \<Rightarrow> nat" where
  "total_entries cs = length (cache cs)"

text \<open>A history of calls on one cache, for statements about every sequence of calls.\<close>

datatype cache_call = Get int pystr pystr | Put int pystr pystr "snapshot option"

fun call :: "cache_service \<Rightarrow> cache_call \<Rightarrow> cache_service" where
  "call cs (Get now crs sid) = snd (CacheService_get now cs crs sid)"
| "call cs (Put now crs sid d) = CacheService_set now cs crs sid d"

definition run_calls :: "cache_service \<Rightarrow> cache_call list \<Rightarrow> cache_service" where
  "run_calls cs calls = foldl call cs calls"

fun put_keys :: "cache_call list \<Rightarrow> pystr list" where
  "put_keys [] = []"
| "put_keys (Get now crs sid # cs) = put_keys cs"
| "put_keys (Put now crs sid d # cs) = get_cache_key crs sid # put_keys cs"

section \<open>The world outside: configuration, clock, scraper API, Telegram\<close>

text \<open>
  The environment fixes what the code cannot decide: the configuration constants, the
  value of the \<open>n\<close>-th reading of the clock, the reply of the scraper API to the \<open>n\<close>-th
  request, and whether the \<open>n\<close>-th call of \<open>bot.send_message\<close> delivers or raises.
  \<open>MAX_TEXT_LENGTH\<close> is \<open>telegram.constants.MessageLimit.MAX_TEXT_LENGTH\<close>.
  A reply of the scraper API is a response with its status and the value of
  \<open>resp.json()\<close> (a list of sections, or \<open>None\<close> for the JSON value \<open>null\<close>), a response
  of status 200 whose body is not JSON, a timeout, or a connection failure.
\<close>

datatype http_reply =
    Response nat "snapshot option"
  | InvalidJson
  | TimeoutError
  | ClientConnectorError

record env =
  CACHE_ENABLED :: bool
  MAX_TEXT_LENGTH :: nat
  clock :: "nat \<Rightarrow> int"
  http_get :: "nat \<Rightarrow> pystr \<Rightarrow> pystr \<Rightarrow> http_reply"
  send_message :: "nat \<Rightarrow> int \<Rightarrow> pystr \<Rightarrow> bool"

datatype error = CloudflareBlockedError | ClientError | JSONError | TelegramError | KeyError

record user_preferences =
  id_no :: pystr
  courses :: "pystr list"
  sections :: "(pystr \<times> int list) list"
  previous_data :: "(pystr \<times> snapshot) list"

record world =
  cache_svc :: cache_service
  clock_reads :: nat
  requests :: "(pystr \<times> pystr) list"
  send_calls :: nat
  sent :: "(int \<times> pystr) list"
  subscriptions :: "(int \<times> user_preferences) list"

section \<open>The scraper service (services/scraper.py)\<close>

text \<open>
  \<open>self.cache.get\<close> and \<open>self.cache.set\<close> on the cache of the world. \<open>get\<close> reads the
  clock only when the key is present (\<open>entry and entry.is_valid(...)\<close>).
\<close>

definition cache_get :: "env \<Rightarrow> world \<Rightarrow> pystr \<Rightarrow> pystr \<Rightarrow> snapshot option \<times> world" where
  "cache_get ev w crs sid =
     (let (r, cs) = CacheService_get (clock ev (clock_reads w)) (cache_svc w) crs sid
      in (r, w\<lparr>cache_svc := cs,
               clock_reads := (if map_of (cache (cache_svc w)) (get_cache_key crs sid) = None
                               then clock_reads w else Suc (clock_reads w))\<rparr>))"

definition cache_set :: "env \<Rightarrow> world \<Rightarrow> pystr \<Rightarrow> pystr \<Rightarrow> snapshot option \<Rightarrow> world" where
  "cache_set ev w crs sid d =
     w\<lparr>cache_svc := CacheService_set (clock ev (clock_reads w)) (cache_svc w) crs sid d,
       clock_reads := Suc (clock_reads w)\<rparr>"

text \<open>
  \<open>fetch_course_data\<close>. A request is logged in \<open>requests\<close>. Status 503 raises
  \<open>CloudflareBlockedError\<close>, any other status than 200 raises \<open>ClientError\<close>, as do a
  timeout and a connection failure; a body that is not JSON makes \<open>resp.json\<close> raise.
  What \<open>resp.json()\<close> returns is cached and returned as it is, also \<open>None\<close>; cached
  data that is \<open>None\<close> fails the test \<open>cached_data is not None\<close> like a miss.
\<close>

definition fetch_course_data ::
  "env \<Rightarrow> world \<Rightarrow> pystr \<Rightarrow> pystr \<Rightarrow> bool \<Rightarrow> (error + snapshot option) \<times> world" where
  "fetch_course_data ev w crs sid use_cache =
     (let (cached_data, w1) =
            (if use_cache \<and> CACHE_ENABLED ev then cache_get ev w crs sid else (None, w))
      in case cached_data of
           Some d \<Rightarrow> (Inr (Some d), w1)
         | None \<Rightarrow>
            (let reply = http_get ev (length (requests w1)) crs sid;
                 w2 = w1\<lparr>requests := requests w1 @ [(crs, sid)]\<rparr>
             in case reply of
                  Response status body \<Rightarrow>
                    if status = 503 then (Inl CloudflareBlockedError, w2)
                    else if status \<noteq> 200 then (Inl ClientError, w2)
                    else (Inr body, if CACHE_ENABLED ev then cache_set ev w2 crs sid body else w2)
                | InvalidJson \<Rightarrow> (Inl JSONError, w2)
                | TimeoutError \<Rightarrow> (Inl ClientError, w2)
                | ClientConnectorError \<Rightarrow> (Inl ClientError, w2)))"

text \<open>
  \<open>fetch_and_filter_data\<close>: \<open>CloudflareBlockedError\<close> is raised again, every other
  exception becomes the result \<open>None\<close>. The filter is applied under \<open>if class_numbers:\<close>,
  that is for a list that is given and not empty. Sections that are \<open>None\<close> are returned
  as they are, or make the filter raise a \<open>TypeError\<close>, which is caught: the result is
  \<open>None\<close> both ways.
\<close>

definition filter_sections :: "int list option \<Rightarrow> snapshot \<Rightarrow> snapshot" where
  "filter_sections class_nums secs =
     (case class_nums of
        Some (c # cs) \<Rightarrow>
          filter (\<lambda>s. case classNbr s of None \<Rightarrow> False | Some k \<Rightarrow> k \<in> set (c # cs)) secs
      | _ \<Rightarrow> secs)"

definition fetch_and_filter_data ::
  "env \<Rightarrow> world \<Rightarrow> pystr \<Rightarrow> pystr \<Rightarrow> int list option \<Rightarrow> bool \<Rightarrow>
   (error + snapshot option) \<times> world" where
  "fetch_and_filter_data ev w crs sid class_nums use_cache =
     (case fetch_course_data ev w crs sid use_cache of
        (Inr (Some secs), w') \<Rightarrow> (Inr (Some (filter_sections class_nums secs)), w')
      | (Inr None, w') \<Rightarrow> (Inr None, w')
      | (Inl CloudflareBlockedError, w') \<Rightarrow> (Inl CloudflareBlockedError, w')
      | (Inl e, w') \<Rightarrow> (Inr None, w'))"

section \<open>The notifier (models/tracking.py, services/notifier.py)\<close>

record tracking_info =
  chat_id :: int
  student_id :: pystr
  ti_course :: pystr
  track_all :: bool
  class_numbers :: "int list"

definition get_data_key :: "tracking_info \<Rightarrow> pystr" where
  "get_data_key ti = (if track_all ti then ti_course ti else ti_course ti @ u '':sections'')"

text \<open>
  The first loop of \<open>send_long_message\<close>, over \<open>text_lines\<close>, with the variables
  \<open>chunks\<close> and \<open>current_chunk\<close>.
\<close>

fun chunk_loop :: "nat \<Rightarrow> pystr list \<Rightarrow> pystr \<Rightarrow> pystr list \<Rightarrow> pystr list" where
  "chunk_loop msg_limit chunks current_chunk [] =
     (if current_chunk \<noteq> [] then chunks @ [strip current_chunk] else chunks)"
| "chunk_loop msg_limit chunks current_chunk (line # rest) =
     (let line_with_separators = (if current_chunk \<noteq> [] then [10, 10] else []) @ line
      in if length current_chunk + length line_with_separators > msg_limit
         then chunk_loop msg_limit (chunks @ [strip current_chunk]) line rest
         else chunk_loop msg_limit chunks (current_chunk @ line_with_separators) rest)"

definition split_chunks :: "nat \<Rightarrow> pystr list \<Rightarrow> pystr list" where
  "split_chunks msg_limit text_lines = chunk_loop msg_limit [] [] text_lines"

text \<open>The message of chunk \<open>idx\<close> of \<open>n\<close>: the header, when there is one, and the chunk.\<close>

definition full_message :: "pystr \<Rightarrow> nat \<Rightarrow> nat \<Rightarrow> pystr \<Rightarrow> pystr" where
  "full_message title n idx chunk =
     (if n > 1 \<and> title \<noteq> []
      then u ''*'' @ title @ u ''* (part '' @ str_nat idx @ u ''/'' @ str_nat n @ [41, 10, 10]
      else []) @ chunk"

text \<open>One call of \<open>ctx.bot.send_message\<close>: it delivers, or it raises.\<close>

definition bot_send :: "env \<Rightarrow> world \<Rightarrow> int \<Rightarrow> pystr \<Rightarrow> bool \<times> world" where
  "bot_send ev w chat text =
     (let ok = send_message ev (send_calls w) chat text
      in (ok, w\<lparr>send_calls := Suc (send_calls w),
                sent := (if ok then sent w @ [(chat, text)] else sent w)\<rparr>))"

text \<open>
  The second loop of \<open>send_long_message\<close>. A failed send is caught; for the first chunk
  the handler sends an error notice, outside any \<open>try\<close>; then the loop is left. The
  log lines and the pause of half a second after each send have no effect on the world
  and are left out.
\<close>

fun send_chunks ::
  "env \<Rightarrow> int \<Rightarrow> pystr \<Rightarrow> nat \<Rightarrow> nat \<Rightarrow> pystr list \<Rightarrow> world \<Rightarrow> (error + unit) \<times> world" where
  "send_chunks ev chat title n idx [] w = (Inr (), w)"
| "send_chunks ev chat title n idx (chunk # rest) w =
     (case bot_send ev w chat (full_message title n idx chunk) of
        (True, w1) \<Rightarrow> send_chunks ev chat title n (Suc idx) rest w1
      | (False, w1) \<Rightarrow>
          if idx = 1
          then (case bot_send ev w1 chat
                       ([10060] @ u '' Error sending status update for '' @ title @
                        u ''. Please try again later.'') of
                  (True, w2) \<Rightarrow> (Inr (), w2)
                | (False, w2) \<Rightarrow> (Inl TelegramError, w2))
          else (Inr (), w1))"

definition send_long_message ::
  "env \<Rightarrow> world \<Rightarrow> int \<Rightarrow> pystr list \<Rightarrow> pystr \<Rightarrow> (error + unit) \<times> world" where
  "send_long_message ev w chat text_lines title =
     (let chunks = split_chunks (MAX_TEXT_LENGTH ev) text_lines
      in send_chunks ev chat title (length chunks) 1 chunks w)"

text \<open>\<open>process_course_updates\<close>\<close>

definition title_suffix :: "tracking_info \<Rightarrow> pystr" where
  "title_suffix ti =
     (if track_all ti then []
      else u '' (Sections: '' @ join (u '', '') (map str_int (class_numbers ti)) @ u '')'')"

definition process_course_updates ::
  "env \<Rightarrow> world \<Rightarrow> tracking_info \<Rightarrow> (pystr \<times> snapshot) list \<Rightarrow>
   (error + snapshot option) \<times> world" where
  "process_course_updates ev w ti prev_data =
     (let previous_sections =
            (case map_of prev_data (get_data_key ti) of None \<Rightarrow> [] | Some p \<Rightarrow> p)
      in case fetch_and_filter_data ev w (ti_course ti) (student_id ti)
                (if \<not> track_all ti then Some (class_numbers ti) else None) True of
           (Inl e, w1) \<Rightarrow> (Inr None, w1)
         | (Inr None, w1) \<Rightarrow> (Inr None, w1)
         | (Inr (Some current_sections), w1) \<Rightarrow>
             (let chs = diff_courses previous_sections current_sections
              in if any_changes chs
                 then (case send_long_message ev w1 (chat_id ti)
                              (compose_update_lines (ti_course ti) chs (title_suffix ti))
                              (u ''Updates for '' @ ti_course ti @ title_suffix ti) of
                         (Inl e, w2) \<Rightarrow> (Inl e, w2)
                       | (Inr x, w2) \<Rightarrow> (Inr (Some current_sections), w2))
                 else (Inr (Some current_sections), w1)))"

section \<open>The scheduler (bot/scheduler.py)\<close>

text \<open>The tracked items of one subscriber: the whole courses, then the section lists.\<close>

definition tracking_infos_of :: "int \<times> user_preferences \<Rightarrow> tracking_info list" where
  "tracking_infos_of sub =
     (let chat = fst sub; prefs = snd sub
      in if id_no prefs = [] then []
         else map (\<lambda>c. \<lparr>chat_id = chat, student_id = id_no prefs, ti_course = c,
                         track_all = True, class_numbers = []\<rparr>) (courses prefs) @
              concat (map (\<lambda>(c, nums).
                             if nums \<noteq> []
                             then [\<lparr>chat_id = chat, student_id = id_no prefs, ti_course = c,
                                    track_all = False, class_numbers = nums\<rparr>]
                             else []) (sections prefs)))"

definition all_tracking_infos :: "world \<Rightarrow> tracking_info list" where
  "all_tracking_infos w = concat (map tracking_infos_of (subscriptions w))"

text \<open>
  The body of the loop over \<open>all_tracking_infos\<close>: the item is processed and, when a
  snapshot comes back, it is stored under the item's data key.
\<close>

definition process_item :: "env \<Rightarrow> world \<Rightarrow> tracking_info \<Rightarrow> (error + unit) \<times> world" where
  "process_item ev w ti =
     (case map_of (subscriptions w) (chat_id ti) of
        None \<Rightarrow> (Inl KeyError, w)
      | Some prefs \<Rightarrow>
          (case process_course_updates ev w ti (previous_data prefs) of
             (Inl e, w') \<Rightarrow> (Inl e, w')
           | (Inr None, w') \<Rightarrow> (Inr (), w')
           | (Inr (Some current_data), w') \<Rightarrow>
               (Inr (),
                w'\<lparr>subscriptions :=
                     AList.update (chat_id ti)
                       (prefs\<lparr>previous_data :=
                                AList.update (get_data_key ti) current_data (previous_data prefs)\<rparr>)
                       (subscriptions w')\<rparr>)))"

fun process_items :: "env \<Rightarrow> world \<Rightarrow> tracking_info list \<Rightarrow> (error + unit) \<times> world" where
  "process_items ev w [] = (Inr (), w)"
| "process_items ev w (ti # rest) =
     (case process_item ev w ti of
        (Inl e, w') \<Rightarrow> (Inl e, w')
      | (Inr x, w') \<Rightarrow> process_items ev w' rest)"

text \<open>
  \<open>broadcast_updates\<close>. The call of \<open>storage.save()\<close> after the loop writes the
  subscriptions to the file; the file is not part of the world, so the call is left out.
  An error that leaves the loop leaves the function before that call.
\<close>

definition broadcast_updates :: "env \<Rightarrow> world \<Rightarrow> (error + unit) \<times> world" where
  "broadcast_updates ev w =
     (if subscriptions w = [] then (Inr (), w)
      else if all_tracking_infos w = [] then (Inr (), w)
      else process_items ev w (all_tracking_infos w))"

section \<open>Notions of the specification\<close>

text \<open>
  The section a snapshot holds for a class number: the last one that carries it (the
  specification's index is last-write-wins).
\<close>

definition section_for :: "snapshot \<Rightarrow> int \<Rightarrow> sect option" where
  "section_for xs k = find (\<lambda>s. classNbr s = Some k) (rev xs)"

text \<open>
  The value of \<open>current_chunk\<close> after the blocks \<open>g\<close> were added to the empty chunk: the
  blocks joined by a blank line, where empty blocks at the front add nothing. The blocks
  \<open>ls\<close> are fitted behind the blocks \<open>p\<close> when each of them, in its turn, fitted into the
  chunk of the blocks before it. A list of groups of blocks is greedy for a limit when the
  first block of each later group did not fit into the chunk of the group before it, and
  the other blocks of that group are fitted behind its first. A list of groups is packed
  when, moreover, there is a first group and its blocks are fitted from the empty chunk.
\<close>

definition chunk_of :: "pystr list \<Rightarrow> pystr" where
  "chunk_of g = join [10, 10] (dropWhile (\<lambda>l. l = []) g)"

definition fits :: "nat \<Rightarrow> pystr list \<Rightarrow> pystr \<Rightarrow> bool" where
  "fits lim p l \<longleftrightarrow>
     length (chunk_of p) + length ((if chunk_of p \<noteq> [] then [10, 10] else []) @ l) \<le> lim"

fun fitted :: "nat \<Rightarrow> pystr list \<Rightarrow> pystr list \<Rightarrow> bool" where
  "fitted lim p [] = True"
| "fitted lim p (l # ls) = (fits lim p l \<and> fitted lim (p @ [l]) ls)"

fun greedy :: "nat \<Rightarrow> pystr list list \<Rightarrow> bool" where
  "greedy lim [] = True"
| "greedy lim [g] = True"
| "greedy lim (g # h # gs) =
     (h \<noteq> [] \<and> \<not> fits lim g (hd h) \<and> fitted lim [hd h] (tl h) \<and> greedy lim (h # gs))"

definition packed :: "nat \<Rightarrow> pystr list list \<Rightarrow> bool" where
  "packed lim groups \<longleftrightarrow> groups \<noteq> [] \<and> fitted lim [] (hd groups) \<and> greedy lim groups"

text \<open>The cache of the world holds a valid entry \<open>e\<close> for the key of (course, identity).\<close>

definition holds_valid :: "env \<Rightarrow> world \<Rightarrow> pystr \<Rightarrow> pystr \<Rightarrow> cache_entry \<Rightarrow> bool" where
  "holds_valid ev w crs sid e \<longleftrightarrow>
     map_of (cache (cache_svc w)) (get_cache_key crs sid) = Some e \<and>
     is_valid (clock ev (clock_reads w)) e (max_age_seconds (cache_svc w))"

section \<open>Example data\<close>

text \<open>
  A section with course, label, class number and enrolment as given, a capacity of 40,
  and no other field.
\<close>

definition sec :: "string \<Rightarrow> string \<Rightarrow> int option \<Rightarrow> pyval option \<Rightarrow> sect" where
  "sec c l k e =
     \<lparr>course = Some (u c), section_label = Some (u l), classNbr = k, enrolled = e,
      enrlCap = Some (PInt 40), remarks = None, instructor = None, meetings = []\<rparr>"

text \<open>
  An environment with caching enabled, a message limit of 4096, a clock that advances by
  one second at each reading, a scraper API that answers by the course alone, and a bot
  whose sends all deliver or all raise. A world with an empty cache and nothing sent.
\<close>

definition example_env :: "(pystr \<Rightarrow> http_reply) \<Rightarrow> bool \<Rightarrow> env" where
  "example_env reply delivers =
     \<lparr>CACHE_ENABLED = True, MAX_TEXT_LENGTH = 4096, clock = (\<lambda>n. int n * 1000000),
      http_get = (\<lambda>n crs sid. reply crs), send_message = (\<lambda>n chat text. delivers)\<rparr>"

definition example_world :: "(int \<times> user_preferences) list \<Rightarrow> world" where
  "example_world subs =
     \<lparr>cache_svc = CacheService_init 60, clock_reads = 0, requests = [], send_calls = 0,
      sent = [], subscriptions = subs\<rparr>"

definition two_sections :: snapshot where
  "two_sections = [sec ''CSOPESY'' ''S11'' (Some 1111) (Some (PInt 20)),
                   sec ''CSOPESY'' ''S12'' (Some 2222) (Some (PInt 30))]"

text \<open>
  A subscriber with an identity, whole courses and previous snapshots, and no section
  lists; the tracked item of a whole course; a scraper API that is blocked for one course
  and answers \<open>two_sections\<close> for every other.
\<close>

definition subscriber :: "string \<Rightarrow> string list \<Rightarrow> (pystr \<times> snapshot) list \<Rightarrow> user_preferences" where
  "subscriber sid crss prev =
     \<lparr>id_no = u sid, courses = map (\<lambda>c. u c) crss, sections = [], previous_data = prev\<rparr>"

definition whole_course :: "int \<Rightarrow> string \<Rightarrow> string \<Rightarrow> tracking_info" where
  "whole_course chat sid crs =
     \<lparr>chat_id = chat, student_id = u sid, ti_course = u crs, track_all = True,
      class_numbers = []\<rparr>"

definition blocked_for :: "string \<Rightarrow> pystr \<Rightarrow> http_reply" where
  "blocked_for c crs = (if crs = u c then Response 503 None else Response 200 (Some two_sections))"

section \<open>Properties of the diff\<close>

lemma by_number_Nil: "by_number [] = []"
  by (simp add: by_number_def)

lemma by_number_snoc:
  "by_number (xs @ [s]) =
     (case classNbr s of None \<Rightarrow> by_number xs | Some k \<Rightarrow> AList.update k s (by_number xs))"
  unfolding by_number_def by simp

lemma distinct_by_number: "distinct (map fst (by_number xs))"
  by (induction xs rule: rev_induct)
     (auto simp: by_number_Nil by_number_snoc distinct_update split: option.splits)

text \<open>The index maps a class number to the last section of the snapshot that carries it.\<close>

lemma map_of_by_number:
  "map_of (by_number xs) k = find (\<lambda>s. classNbr s = Some k) (rev xs)"
  by (induction xs rule: rev_induct)
     (auto simp: by_number_Nil by_number_snoc update_conv' split: option.splits)

lemma by_number_mem:
  "(k, s) \<in> set (by_number xs) \<longleftrightarrow> map_of (by_number xs) k = Some s"
  using distinct_by_number [of xs] by (auto intro: map_of_is_SomeI dest: map_of_SomeD)

lemma by_number_filter:
  "by_number (filter (\<lambda>s. classNbr s \<noteq> None) xs) = by_number xs"
  by (induction xs rule: rev_induct)
     (auto simp: by_number_Nil by_number_snoc split: option.splits)

lemma update_fresh: "k \<notin> fst ` set al \<Longrightarrow> AList.update k v al = al @ [(k, v)]"
  by (induction al) auto

lemma by_number_wf:
  "\<forall>s\<in>set xs. classNbr s \<noteq> None \<Longrightarrow> distinct (map classNbr xs) \<Longrightarrow>
   by_number xs = map (\<lambda>s. (the (classNbr s), s)) xs"
proof (induction xs rule: rev_induct)
  case Nil
  then show ?case by (simp add: by_number_Nil)
next
  case (snoc s xs)
  then obtain k where k: "classNbr s = Some k" by auto
  have "k \<notin> fst ` set (map (\<lambda>s. (the (classNbr s), s)) xs)"
    using snoc.prems k by (auto simp: image_iff)
  then show ?case using snoc k
    by (simp add: by_number_snoc update_fresh)
qed

text \<open>
  C7. For every snapshot \<open>X\<close>, the diff of \<open>X\<close> against itself has no added section, no
  removed section and no enrolment change.
\<close>

theorem diff_courses_self:
  "diff_courses X X = \<lparr>added = [], removed = [], enrollment = []\<rparr>"
proof -
  have a: "filter (\<lambda>kv. map_of (by_number X) (fst kv) = None) (by_number X) = []"
    by (auto simp: filter_empty_conv by_number_mem)
  have e: "enrollment_change (by_number X) kv = []" if "kv \<in> set (by_number X)" for kv
  proof -
    have "map_of (by_number X) (fst kv) = Some (snd kv)"
      using that by_number_mem [of "fst kv" "snd kv" X] by simp
    then show ?thesis by (simp add: enrollment_change_def split: option.splits)
  qed
  then have "concat (map (enrollment_change (by_number X)) (by_number X)) = []"
    by simp
  with a show ?thesis by (simp add: diff_courses_def Let_def)
qed

lemma by_number_classNbr:
  "(k, s) \<in> set (by_number xs) \<Longrightarrow> classNbr s = Some k \<and> s \<in> set xs"
proof (induction xs rule: rev_induct)
  case Nil
  then show ?case by (simp add: by_number_Nil)
next
  case (snoc x xs)
  show ?case
  proof (cases "classNbr x")
    case None
    then show ?thesis using snoc by (simp add: by_number_snoc)
  next
    case (Some j)
    then have "map_of (AList.update j x (by_number xs)) k = Some s"
      using snoc.prems by_number_mem [of k s "xs @ [x]"] by (simp add: by_number_snoc)
    then show ?thesis using snoc.IH Some by_number_mem [of k s xs]
      by (auto simp: update_conv' split: if_splits)
  qed
qed

lemma keys_set_by_number: "fst ` set (by_number xs) = {k. Some k \<in> classNbr ` set xs}"
  by (induction xs rule: rev_induct)
     (auto simp: by_number_Nil by_number_snoc dom_update split: option.splits)

text \<open>The keys of the index stand in the order in which they first occur.\<close>

lemma keys_by_number:
  "map Some (map fst (by_number xs)) =
   rev (remdups (rev (filter (\<lambda>k. k \<noteq> None) (map classNbr xs))))"
proof (induction xs rule: rev_induct)
  case Nil
  then show ?case by (simp add: by_number_Nil)
next
  case (snoc x xs)
  show ?case
  proof (cases "classNbr x")
    case None
    then show ?thesis using snoc by (simp add: by_number_snoc)
  next
    case (Some j)
    have "Some j \<in> classNbr ` set xs \<longleftrightarrow> j \<in> fst ` set (by_number xs)"
      by (simp add: keys_set_by_number)
    then show ?thesis using snoc Some
      by (auto simp: by_number_snoc update_keys)
  qed
qed

lemma enrollment_change_cases:
  "enrollment_change ob kv = [] \<or>
   (\<exists>c. enrollment_change ob kv = [c] \<and> chg_section c = snd kv)"
  by (auto simp: enrollment_change_def split: option.splits)

lemma map_concat_singletons:
  "\<forall>x\<in>set xs. f x = [] \<or> (\<exists>y. f x = [y] \<and> g y = h x) \<Longrightarrow>
   map g (concat (map f xs)) = map h (filter (\<lambda>x. f x \<noteq> []) xs)"
  by (induction xs) auto

lemma enrollment_numbers:
  "map (\<lambda>c. classNbr (chg_section c)) (enrollment (diff_courses old new)) =
   map (\<lambda>kv. Some (fst kv))
     (filter (\<lambda>kv. enrollment_change (by_number old) kv \<noteq> []) (by_number new))"
proof -
  have "\<forall>kv\<in>set (by_number new). enrollment_change (by_number old) kv = [] \<or>
          (\<exists>c. enrollment_change (by_number old) kv = [c] \<and>
               classNbr (chg_section c) = Some (fst kv))"
    using enrollment_change_cases [of "by_number old"] by_number_classNbr [of _ _ new]
    by (metis prod.collapse)
  then show ?thesis
    by (simp add: diff_courses_def Let_def map_concat_singletons)
qed

text \<open>
  C8, as the claim states it, fails: a section without a class number is not indexed,
  so the diff of the empty snapshot against a snapshot holding such a section adds
  nothing.
\<close>

theorem diff_courses_boundary_counterexample:
  "added (diff_courses [] [sec ''CSOPESY'' ''S11'' None (Some (PInt 3))])
     \<noteq> [sec ''CSOPESY'' ''S11'' None (Some (PInt 3))]"
  by (simp add: diff_courses_def by_number_def sec_def)

text \<open>
  C8, amended. For every snapshot \<open>S\<close> whose sections all carry a class number, no two
  the same: the diff of the empty snapshot against \<open>S\<close> has \<open>added = S\<close> and nothing
  removed, and the diff of \<open>S\<close> against the empty snapshot has \<open>removed = S\<close> and nothing
  added.
\<close>

theorem diff_courses_boundary:
  assumes "\<forall>s\<in>set S. classNbr s \<noteq> None" and "distinct (map classNbr S)"
  shows "added (diff_courses [] S) = S \<and> removed (diff_courses [] S) = [] \<and>
         removed (diff_courses S []) = S \<and> added (diff_courses S []) = []"
  using assms by (simp add: diff_courses_def by_number_Nil by_number_wf o_def)

theorem diff_courses_boundary_witness:
  "added (diff_courses [] [sec ''CSOPESY'' ''S11'' (Some 1111) (Some (PInt 20)),
                           sec ''CSOPESY'' ''S12'' (Some 2222) (Some (PInt 30))])
     = [sec ''CSOPESY'' ''S11'' (Some 1111) (Some (PInt 20)),
        sec ''CSOPESY'' ''S12'' (Some 2222) (Some (PInt 30))] \<and>
   removed (diff_courses [] [sec ''CSOPESY'' ''S11'' (Some 1111) (Some (PInt 20)),
                             sec ''CSOPESY'' ''S12'' (Some 2222) (Some (PInt 30))]) = [] \<and>
   removed (diff_courses [sec ''CSOPESY'' ''S11'' (Some 1111) (Some (PInt 20)),
                          sec ''CSOPESY'' ''S12'' (Some 2222) (Some (PInt 30))] [])
     = [sec ''CSOPESY'' ''S11'' (Some 1111) (Some (PInt 20)),
        sec ''CSOPESY'' ''S12'' (Some 2222) (Some (PInt 30))] \<and>
   added (diff_courses [sec ''CSOPESY'' ''S11'' (Some 1111) (Some (PInt 20)),
                        sec ''CSOPESY'' ''S12'' (Some 2222) (Some (PInt 30))] []) = []"
  using diff_courses_boundary
    [of "[sec ''CSOPESY'' ''S11'' (Some 1111) (Some (PInt 20)),
          sec ''CSOPESY'' ''S12'' (Some 2222) (Some (PInt 30))]"]
  by (simp add: sec_def)

text \<open>
  C10. A section without a class number in either snapshot contributes to no field of
  the diff: the diff is the diff of the two snapshots with those sections left out, and
  every section in \<open>added\<close>, in \<open>removed\<close> and in an enrolment change carries a class
  number.
\<close>

theorem diff_courses_ignores_unnumbered:
  "diff_courses old new =
     diff_courses (filter (\<lambda>s. classNbr s \<noteq> None) old)
                  (filter (\<lambda>s. classNbr s \<noteq> None) new) \<and>
   (\<forall>s \<in> set (added (diff_courses old new)) \<union> set (removed (diff_courses old new)) \<union>
          chg_section ` set (enrollment (diff_courses old new)). classNbr s \<noteq> None)"
proof -
  have 1: "diff_courses old new =
     diff_courses (filter (\<lambda>s. classNbr s \<noteq> None) old)
                  (filter (\<lambda>s. classNbr s \<noteq> None) new)"
    by (simp only: diff_courses_def by_number_filter)
  have 2: "classNbr s \<noteq> None" if "s \<in> set (added (diff_courses old new))" for s
    using that by_number_classNbr [of _ s new] by (auto simp: diff_courses_def Let_def)
  have 3: "classNbr s \<noteq> None" if "s \<in> set (removed (diff_courses old new))" for s
    using that by_number_classNbr [of _ s old] by (auto simp: diff_courses_def Let_def)
  have 4: "classNbr (chg_section c) \<noteq> None"
    if "c \<in> set (enrollment (diff_courses old new))" for c
  proof -
    have "classNbr (chg_section c) \<in>
            set (map (\<lambda>c. classNbr (chg_section c)) (enrollment (diff_courses old new)))"
      using that by auto
    then show ?thesis unfolding enrollment_numbers by auto
  qed
  have 5: "classNbr s \<noteq> None"
    if "s \<in> set (added (diff_courses old new)) \<union> set (removed (diff_courses old new)) \<union>
            chg_section ` set (enrollment (diff_courses old new))" for s
    using that 2 3 4 by blast
  show ?thesis
  proof (rule conjI)
    show "diff_courses old new =
      diff_courses (filter (\<lambda>s. classNbr s \<noteq> None) old)
                   (filter (\<lambda>s. classNbr s \<noteq> None) new)"
      by (rule 1)
  next
    show "\<forall>s \<in> set (added (diff_courses old new)) \<union> set (removed (diff_courses old new)) \<union>
          chg_section ` set (enrollment (diff_courses old new)). classNbr s \<noteq> None"
      using 5 by (rule ballI)
  qed
qed

theorem diff_courses_ignores_unnumbered_witness:
  "diff_courses [sec ''CSOPESY'' ''S11'' (Some 1111) (Some (PInt 20)),
                 sec ''CSOPESY'' ''S13'' None (Some (PInt 5))]
                [sec ''CSOPESY'' ''S14'' None (Some (PInt 7)),
                 sec ''CSOPESY'' ''S11'' (Some 1111) (Some (PInt 25))] =
   diff_courses [sec ''CSOPESY'' ''S11'' (Some 1111) (Some (PInt 20))]
                [sec ''CSOPESY'' ''S11'' (Some 1111) (Some (PInt 25))]"
  using diff_courses_ignores_unnumbered
    [of "[sec ''CSOPESY'' ''S11'' (Some 1111) (Some (PInt 20)),
          sec ''CSOPESY'' ''S13'' None (Some (PInt 5))]"
        "[sec ''CSOPESY'' ''S14'' None (Some (PInt 7)),
          sec ''CSOPESY'' ''S11'' (Some 1111) (Some (PInt 25))]"]
  by (simp add: sec_def)

lemma enrollment_change_mem:
  "c \<in> set (enrollment_change ob kv) \<longleftrightarrow>
     (\<exists>so. map_of ob (fst kv) = Some so \<and> chg_section c = snd kv \<and>
        enrolled so = Some (old_enrolled c) \<and> enrolled (snd kv) = Some (new_enrolled c) \<and>
        isinstance_int (old_enrolled c) \<and> isinstance_int (new_enrolled c) \<and>
        int_of (old_enrolled c) \<noteq> int_of (new_enrolled c))"
proof (cases "map_of ob (fst kv)")
  case None
  then show ?thesis by (simp add: enrollment_change_def)
next
  case (Some so)
  show ?thesis
  proof (cases "enrolled so")
    case None
    with Some show ?thesis by (simp add: enrollment_change_def)
  next
    case oe: (Some oe)
    show ?thesis
    proof (cases "enrolled (snd kv)")
      case None
      with Some oe show ?thesis by (simp add: enrollment_change_def)
    next
      case ne: (Some ne)
      with Some oe show ?thesis by (cases c) (auto simp: enrollment_change_def)
    qed
  qed
qed

lemma enrollment_mem:
  "c \<in> set (enrollment (diff_courses old new)) \<longleftrightarrow>
     (\<exists>k so. section_for old k = Some so \<and> section_for new k = Some (chg_section c) \<and>
        enrolled so = Some (old_enrolled c) \<and> enrolled (chg_section c) = Some (new_enrolled c) \<and>
        isinstance_int (old_enrolled c) \<and> isinstance_int (new_enrolled c) \<and>
        int_of (old_enrolled c) \<noteq> int_of (new_enrolled c))"
  (is "?L \<longleftrightarrow> ?R")
proof
  assume ?L
  then obtain kv where kv: "kv \<in> set (by_number new)"
      and c: "c \<in> set (enrollment_change (by_number old) kv)"
    by (auto simp: diff_courses_def Let_def)
  have n: "map_of (by_number new) (fst kv) = Some (snd kv)"
    using kv by_number_mem [of "fst kv" "snd kv" new] by simp
  from c n show ?R
    unfolding section_for_def map_of_by_number [symmetric] enrollment_change_mem by metis
next
  assume ?R
  then obtain k so where o: "map_of (by_number old) k = Some so"
      and n: "map_of (by_number new) k = Some (chg_section c)"
      and e: "enrolled so = Some (old_enrolled c)" "enrolled (chg_section c) = Some (new_enrolled c)"
        "isinstance_int (old_enrolled c)" "isinstance_int (new_enrolled c)"
        "int_of (old_enrolled c) \<noteq> int_of (new_enrolled c)"
    unfolding section_for_def map_of_by_number [symmetric] by blast
  from n have kv: "(k, chg_section c) \<in> set (by_number new)"
    by (simp add: by_number_mem)
  have "c \<in> set (enrollment_change (by_number old) (k, chg_section c))"
    using o e by (simp add: enrollment_change_mem)
  with kv show ?L
    by (force simp: diff_courses_def Let_def)
qed

lemma enrollment_distinct:
  "distinct (map (\<lambda>c. classNbr (chg_section c)) (enrollment (diff_courses old new)))"
  unfolding enrollment_numbers
  using distinct_by_number [of new]
  by (simp add: distinct_map_filter distinct_map inj_on_def comp_def)


lemma first_occurrences_filter:
  "rev (remdups (rev (filter Q xs))) = filter Q (rev (remdups (rev xs)))"
  by (simp add: rev_filter remdups_filter)

lemma enrollment_order:
  "map (\<lambda>c. classNbr (chg_section c)) (enrollment (diff_courses old new)) =
   filter (\<lambda>k. k \<in> (\<lambda>c. classNbr (chg_section c)) ` set (enrollment (diff_courses old new)))
     (rev (remdups (rev (map classNbr new))))"
proof -
  let ?E = "enrollment (diff_courses old new)"
  let ?N = "by_number new"
  let ?P = "\<lambda>kv. enrollment_change (by_number old) kv \<noteq> []"
  let ?S = "(\<lambda>c. classNbr (chg_section c)) ` set ?E"
  have S: "?S = (\<lambda>kv. Some (fst kv)) ` {kv \<in> set ?N. ?P kv}"
    using arg_cong [OF enrollment_numbers [of old new], of set] by simp
  have P: "?P kv \<longleftrightarrow> Some (fst kv) \<in> ?S" if "kv \<in> set ?N" for kv
  proof
    assume "?P kv" with that show "Some (fst kv) \<in> ?S" unfolding S by blast
  next
    assume "Some (fst kv) \<in> ?S"
    then obtain kv' where kv': "kv' \<in> set ?N" "?P kv'" "fst kv' = fst kv"
      unfolding S by auto
    then have "kv' = kv"
      using that distinct_by_number [of new] by (metis eq_key_imp_eq_value prod.collapse)
    with kv' show "?P kv" by simp
  qed
  have N: "\<forall>k \<in> ?S. k \<noteq> None" unfolding S by auto
  have "map (\<lambda>c. classNbr (chg_section c)) ?E = map (\<lambda>kv. Some (fst kv)) (filter ?P ?N)"
    by (rule enrollment_numbers)
  also have "\<dots> = map (\<lambda>kv. Some (fst kv)) (filter (\<lambda>kv. Some (fst kv) \<in> ?S) ?N)"
    using P by (metis (mono_tags, lifting) filter_cong)
  also have "\<dots> = filter (\<lambda>k. k \<in> ?S) (map Some (map fst ?N))"
    by (simp add: filter_map comp_def)
  also have "\<dots> = filter (\<lambda>k. k \<in> ?S) (filter (\<lambda>k. k \<noteq> None) (rev (remdups (rev (map classNbr new)))))"
    by (simp only: keys_by_number first_occurrences_filter)
  also have "\<dots> = filter (\<lambda>k. k \<in> ?S) (rev (remdups (rev (map classNbr new))))"
    using N by (auto intro: filter_cong)
  finally show ?thesis .
qed

lemma sorted_changes_sorted:
  "sorted (map change_key (sorted_changes cs)) \<and> mset (sorted_changes cs) = mset cs \<and>
   (\<forall>k. filter (\<lambda>c. change_key c = k) (sorted_changes cs) = filter (\<lambda>c. change_key c = k) cs)"
  by (simp add: sorted_changes_def sort_key_stable)

lemma compose_update_lines_enrollment:
  "compose_update_lines crs chs sfx =
     compose_update_lines crs (chs\<lparr>enrollment := []\<rparr>) sfx @
     (if enrollment chs = [] then []
      else ([10] @ u ''*'' @ [128202] @ u '' Enrollment changes*'') #
           map format_change (sorted_changes (enrollment chs)))"
  by (simp add: compose_update_lines_def)

lemma diff_courses_two_changes:
  "diff_courses
       [sec ''STALGCM'' ''S11'' (Some 1111) (Some (PInt 20)),
        sec ''CSOPESY'' ''S12'' (Some 2222) (Some (PInt 30))]
       [sec ''STALGCM'' ''S11'' (Some 1111) (Some (PInt 21)),
        sec ''CSOPESY'' ''S12'' (Some 2222) (Some (PInt 31))] =
   \<lparr>added = [], removed = [],
    enrollment = [\<lparr>chg_section = sec ''STALGCM'' ''S11'' (Some 1111) (Some (PInt 21)),
                    old_enrolled = PInt 20, new_enrolled = PInt 21\<rparr>,
                  \<lparr>chg_section = sec ''CSOPESY'' ''S12'' (Some 2222) (Some (PInt 31)),
                    old_enrolled = PInt 30, new_enrolled = PInt 31\<rparr>]\<rparr>"
  by (simp add: diff_courses_def by_number_def enrollment_change_def sec_def)

lemma sorted_changes_two_changes:
  "sorted_changes [\<lparr>chg_section = sec ''STALGCM'' ''S11'' (Some 1111) (Some (PInt 21)),
                    old_enrolled = PInt 20, new_enrolled = PInt 21\<rparr>,
                  \<lparr>chg_section = sec ''CSOPESY'' ''S12'' (Some 2222) (Some (PInt 31)),
                    old_enrolled = PInt 30, new_enrolled = PInt 31\<rparr>] =
   [\<lparr>chg_section = sec ''CSOPESY'' ''S12'' (Some 2222) (Some (PInt 31)),
                    old_enrolled = PInt 30, new_enrolled = PInt 31\<rparr>,
    \<lparr>chg_section = sec ''STALGCM'' ''S11'' (Some 1111) (Some (PInt 21)),
                    old_enrolled = PInt 20, new_enrolled = PInt 21\<rparr>]"
  by (simp add: sorted_changes_def change_key_def sec_def less_eq_prod_def list_le_def list_less_def)

lemma format_change_two_changes:
  "format_change \<lparr>chg_section = sec ''CSOPESY'' ''S12'' (Some 2222) (Some (PInt 31)),
                    old_enrolled = PInt 30, new_enrolled = PInt 31\<rparr> =
     [128200] @ u '' CSOPESY S12 (Class 2222) '' @ [96] @ u ''30'' @ [32, 10145, 65039, 32] @
       u ''31'' @ [96] @ u '' / 40''"
  "format_change \<lparr>chg_section = sec ''STALGCM'' ''S11'' (Some 1111) (Some (PInt 21)),
                    old_enrolled = PInt 20, new_enrolled = PInt 21\<rparr> =
     [128200] @ u '' STALGCM S11 (Class 1111) '' @ [96] @ u ''20'' @ [32, 10145, 65039, 32] @
       u ''21'' @ [96] @ u '' / 40''"
  by (simp_all add: format_change_def sec_def get_str_def str_int_def str_nat.simps Let_def)

text \<open>
  C3, as the claim states it, fails: \<open>diff_courses\<close> returns the enrolment changes in the
  order of the new snapshot, not sorted. Here the change of STALGCM stands before the
  change of CSOPESY.
\<close>

theorem diff_courses_enrollment_counterexample:
  "\<not> sorted (map change_key (enrollment (diff_courses
       [sec ''STALGCM'' ''S11'' (Some 1111) (Some (PInt 20)),
        sec ''CSOPESY'' ''S12'' (Some 2222) (Some (PInt 30))]
       [sec ''STALGCM'' ''S11'' (Some 1111) (Some (PInt 21)),
        sec ''CSOPESY'' ''S12'' (Some 2222) (Some (PInt 31))])))"
  by (simp add: diff_courses_def by_number_def enrollment_change_def change_key_def sec_def
      less_eq_prod_def list_le_def list_less_def)

text \<open>
  C3, amended. The enrolment changes of the diff hold exactly one entry for each class
  number that both snapshots hold a section for and whose two enrolled values are both
  integers (\<open>isinstance(v, int)\<close>) and differ, with the new section and the two values;
  a missing or non-integer enrolled value gives no entry. The entries stand in the order
  in which their class numbers first occur in the new snapshot. The order by (course,
  section label) is made by \<open>compose_update_lines\<close>: the lines it gives for the diff end,
  when there are changes, with their heading and one line for each change, in the order
  of the changes sorted stably by (course, section label).
\<close>

theorem diff_courses_enrollment:
  "distinct (map (\<lambda>c. classNbr (chg_section c)) (enrollment (diff_courses old new))) \<and>
   (\<forall>c. c \<in> set (enrollment (diff_courses old new)) \<longleftrightarrow>
      (\<exists>k so. section_for old k = Some so \<and> section_for new k = Some (chg_section c) \<and>
         enrolled so = Some (old_enrolled c) \<and>
         enrolled (chg_section c) = Some (new_enrolled c) \<and>
         isinstance_int (old_enrolled c) \<and> isinstance_int (new_enrolled c) \<and>
         int_of (old_enrolled c) \<noteq> int_of (new_enrolled c))) \<and>
   map (\<lambda>c. classNbr (chg_section c)) (enrollment (diff_courses old new)) =
     filter (\<lambda>k. k \<in> (\<lambda>c. classNbr (chg_section c)) ` set (enrollment (diff_courses old new)))
       (rev (remdups (rev (map classNbr new)))) \<and>
   compose_update_lines crs (diff_courses old new) sfx =
     compose_update_lines crs ((diff_courses old new)\<lparr>enrollment := []\<rparr>) sfx @
     (if enrollment (diff_courses old new) = [] then []
      else ([10] @ u ''*'' @ [128202] @ u '' Enrollment changes*'') #
           map format_change (sorted_changes (enrollment (diff_courses old new)))) \<and>
   sorted (map change_key (sorted_changes (enrollment (diff_courses old new)))) \<and>
   mset (sorted_changes (enrollment (diff_courses old new))) =
     mset (enrollment (diff_courses old new)) \<and>
   (\<forall>k. filter (\<lambda>c. change_key c = k) (sorted_changes (enrollment (diff_courses old new))) =
        filter (\<lambda>c. change_key c = k) (enrollment (diff_courses old new)))"
  using enrollment_distinct [of old new] enrollment_mem [of _ old new]
    enrollment_order [of old new] sorted_changes_sorted [of "enrollment (diff_courses old new)"]
    compose_update_lines_enrollment [of crs "diff_courses old new" sfx]
  by blast

theorem diff_courses_enrollment_witness:
  "\<lparr>chg_section = sec ''CSOPESY'' ''S12'' (Some 2222) (Some (PInt 31)),
    old_enrolled = PInt 30, new_enrolled = PInt 31\<rparr>
     \<in> set (enrollment (diff_courses
       [sec ''STALGCM'' ''S11'' (Some 1111) (Some (PInt 20)),
        sec ''CSOPESY'' ''S12'' (Some 2222) (Some (PInt 30))]
       [sec ''STALGCM'' ''S11'' (Some 1111) (Some (PStr (u ''full''))),
        sec ''CSOPESY'' ''S12'' (Some 2222) (Some (PInt 31))])) \<and>
   compose_update_lines (u ''CSOPESY'') (diff_courses
       [sec ''STALGCM'' ''S11'' (Some 1111) (Some (PInt 20)),
        sec ''CSOPESY'' ''S12'' (Some 2222) (Some (PInt 30))]
       [sec ''STALGCM'' ''S11'' (Some 1111) (Some (PInt 21)),
        sec ''CSOPESY'' ''S12'' (Some 2222) (Some (PInt 31))]) [] =
     [u ''*Updates for CSOPESY* '' @ [128226],
      [10] @ u ''*'' @ [128202] @ u '' Enrollment changes*'',
      [128200] @ u '' CSOPESY S12 (Class 2222) '' @ [96] @ u ''30'' @ [32, 10145, 65039, 32] @
        u ''31'' @ [96] @ u '' / 40'',
      [128200] @ u '' STALGCM S11 (Class 1111) '' @ [96] @ u ''20'' @ [32, 10145, 65039, 32] @
        u ''21'' @ [96] @ u '' / 40'']"
proof (rule conjI)
  let ?old = "[sec ''STALGCM'' ''S11'' (Some 1111) (Some (PInt 20)),
        sec ''CSOPESY'' ''S12'' (Some 2222) (Some (PInt 30))]"
  let ?new = "[sec ''STALGCM'' ''S11'' (Some 1111) (Some (PStr (u ''full''))),
        sec ''CSOPESY'' ''S12'' (Some 2222) (Some (PInt 31))]"
  let ?new' = "[sec ''STALGCM'' ''S11'' (Some 1111) (Some (PInt 21)),
        sec ''CSOPESY'' ''S12'' (Some 2222) (Some (PInt 31))]"
  have o: "section_for ?old 2222 = Some (sec ''CSOPESY'' ''S12'' (Some 2222) (Some (PInt 30)))"
    by (simp add: section_for_def sec_def)
  have n: "section_for ?new 2222 = Some (sec ''CSOPESY'' ''S12'' (Some 2222) (Some (PInt 31)))"
    by (simp add: section_for_def sec_def)
  have e: "enrolled (sec ''CSOPESY'' ''S12'' (Some 2222) (Some (PInt 30))) = Some (PInt 30)"
    "enrolled (sec ''CSOPESY'' ''S12'' (Some 2222) (Some (PInt 31))) = Some (PInt 31)"
    by (simp_all add: sec_def)
  show "\<lparr>chg_section = sec ''CSOPESY'' ''S12'' (Some 2222) (Some (PInt 31)),
      old_enrolled = PInt 30, new_enrolled = PInt 31\<rparr> \<in> set (enrollment (diff_courses ?old ?new))"
    using diff_courses_enrollment [of ?old ?new] o n e by auto
  have "compose_update_lines (u ''CSOPESY'') (diff_courses ?old ?new') [] =
     compose_update_lines (u ''CSOPESY'') ((diff_courses ?old ?new')\<lparr>enrollment := []\<rparr>) [] @
     (if enrollment (diff_courses ?old ?new') = [] then []
      else ([10] @ u ''*'' @ [128202] @ u '' Enrollment changes*'') #
           map format_change (sorted_changes (enrollment (diff_courses ?old ?new'))))"
    using diff_courses_enrollment [of ?old ?new' "u ''CSOPESY''" "[]"] by blast
  then show "compose_update_lines (u ''CSOPESY'') (diff_courses ?old ?new') [] =
     [u ''*Updates for CSOPESY* '' @ [128226],
      [10] @ u ''*'' @ [128202] @ u '' Enrollment changes*'',
      [128200] @ u '' CSOPESY S12 (Class 2222) '' @ [96] @ u ''30'' @ [32, 10145, 65039, 32] @
        u ''31'' @ [96] @ u '' / 40'',
      [128200] @ u '' STALGCM S11 (Class 1111) '' @ [96] @ u ''20'' @ [32, 10145, 65039, 32] @
        u ''21'' @ [96] @ u '' / 40'']"
    unfolding diff_courses_two_changes
    by (simp add: compose_update_lines_def sorted_changes_two_changes format_change_two_changes)
qed

section \<open>Properties of the cache\<close>

lemma cache_call_unchanged_by_get: "cache (snd (CacheService_get now cs crs sid)) = cache cs"
  by (simp add: CacheService_get_def split: option.splits)

lemma call_keys:
  "distinct (map fst (cache cs)) \<Longrightarrow>
   distinct (map fst (cache (call cs c))) \<and>
   fst ` set (cache (call cs c)) = fst ` set (cache cs) \<union> set (put_keys [c])"
  by (cases c) (simp_all add: cache_call_unchanged_by_get CacheService_set_def distinct_update dom_update)

lemma put_keys_append: "put_keys (xs @ ys) = put_keys xs @ put_keys ys"
  by (induction xs rule: put_keys.induct) simp_all

lemma run_calls_keys:
  "distinct (map fst (cache cs)) \<Longrightarrow>
   distinct (map fst (cache (run_calls cs calls))) \<and>
   fst ` set (cache (run_calls cs calls)) = fst ` set (cache cs) \<union> set (put_keys calls)"
proof (induction calls rule: rev_induct)
  case Nil
  then show ?case by (simp add: run_calls_def)
next
  case (snoc c calls)
  then have d: "distinct (map fst (cache (run_calls cs calls)))" by simp
  have r: "run_calls cs (calls @ [c]) = call (run_calls cs calls) c"
    by (simp add: run_calls_def)
  show ?case
    unfolding r using call_keys [OF d, of c] snoc by (auto simp: put_keys_append)
qed

lemma total_entries_run:
  "total_entries (run_calls (CacheService_init ttl) calls) = card (set (put_keys calls))"
proof -
  let ?cs = "run_calls (CacheService_init ttl) calls"
  have k: "distinct (map fst (cache ?cs))" "fst ` set (cache ?cs) = set (put_keys calls)"
    using run_calls_keys [of "CacheService_init ttl" calls] by (simp_all add: CacheService_init_def)
  have "total_entries ?cs = length (map fst (cache ?cs))" by (simp add: total_entries_def)
  also have "\<dots> = card (set (map fst (cache ?cs)))" using distinct_card [OF k(1)] by simp
  also have "\<dots> = card (set (put_keys calls))" using k(2) by simp
  finally show ?thesis .
qed

text \<open>
  With a TTL of 60 seconds an entry is valid one microsecond before it is a minute old,
  and no longer when it is.
\<close>

lemma bit_length_examples:
  "bit_length 59999999 = 26 \<and> bit_length 60000000 = 26 \<and> bit_length 1000000 = 20"
  by (simp add: bit_length.simps)

lemma total_seconds_examples:
  "total_seconds 0 = (0, 0) \<and> total_seconds 1000000 = (4503599627370496, - 52) \<and>
   total_seconds 59999999 = (8444249160582192, - 47) \<and>
   total_seconds 60000000 = (8444249301319680, - 47)"
  unfolding total_seconds_def true_div_def by (simp add: bit_length_examples Let_def)

lemma is_valid_examples:
  "is_valid 0 \<lparr>ce_course = c, ce_student_id = s, data = d, timestamp = 0\<rparr> 60 \<and>
   is_valid 1000000 \<lparr>ce_course = c, ce_student_id = s, data = d, timestamp = 0\<rparr> 60 \<and>
   is_valid 59999999 \<lparr>ce_course = c, ce_student_id = s, data = d, timestamp = 0\<rparr> 60 \<and>
   \<not> is_valid 60000000 \<lparr>ce_course = c, ce_student_id = s, data = d, timestamp = 0\<rparr> 60"
  by (simp add: is_valid_def total_seconds_examples float_less_int_def)

text \<open>
  C6. For every cache and every \<open>get\<close>: when the key is present and the age of its entry
  is under the TTL, \<open>get\<close> returns the stored data and adds one to \<open>hits\<close>; otherwise
  (key absent, or entry expired) it returns nothing and adds one to \<open>misses\<close>. \<open>get\<close>
  leaves the store as it is, so after any history of calls on a new cache the number of
  entries is the number of distinct keys that were put.
\<close>

theorem CacheService_get_counts:
  "(\<forall>e. map_of (cache cs) (get_cache_key crs sid) = Some e \<and> is_valid now e (max_age_seconds cs) \<longrightarrow>
        CacheService_get now cs crs sid = (data e, cs\<lparr>hits := hits cs + 1\<rparr>)) \<and>
   (\<not> (\<exists>e. map_of (cache cs) (get_cache_key crs sid) = Some e \<and> is_valid now e (max_age_seconds cs)) \<longrightarrow>
        CacheService_get now cs crs sid = (None, cs\<lparr>misses := misses cs + 1\<rparr>)) \<and>
   cache (snd (CacheService_get now cs crs sid)) = cache cs \<and>
   total_entries (run_calls (CacheService_init ttl) calls) = card (set (put_keys calls))"
  by (auto simp: CacheService_get_def total_entries_run split: option.splits)

theorem CacheService_get_counts_witness:
  "CacheService_get 59999999
     (CacheService_set 0 (CacheService_init 60) (u ''CSOPESY'') (u ''123'') (Some []))
     (u ''CSOPESY'') (u ''123'') =
     (Some [],
      (CacheService_set 0 (CacheService_init 60) (u ''CSOPESY'') (u ''123'') (Some []))\<lparr>hits := 1\<rparr>) \<and>
   CacheService_get 60000000
     (CacheService_set 0 (CacheService_init 60) (u ''CSOPESY'') (u ''123'') (Some []))
     (u ''CSOPESY'') (u ''123'') =
     (None,
      (CacheService_set 0 (CacheService_init 60) (u ''CSOPESY'') (u ''123'') (Some []))\<lparr>misses := 1\<rparr>) \<and>
   total_entries (run_calls (CacheService_init 60)
     [Put 0 (u ''CSOPESY'') (u ''123'') (Some []), Get 60000000 (u ''CSOPESY'') (u ''123''),
      Put 70000000 (u ''CSOPESY'') (u ''123'') (Some []),
      Put 70000001 (u ''STALGCM'') (u ''123'') (Some [])]) = 2"
  using
    CacheService_get_counts
      [of "CacheService_set 0 (CacheService_init 60) (u ''CSOPESY'') (u ''123'') (Some [])"
      "u ''CSOPESY''" "u ''123''" 59999999 60
      "[Put 0 (u ''CSOPESY'') (u ''123'') (Some []), Get 60000000 (u ''CSOPESY'') (u ''123''),
      Put 70000000 (u ''CSOPESY'') (u ''123'') (Some []),
      Put 70000001 (u ''STALGCM'') (u ''123'') (Some [])]"]
    CacheService_get_counts
      [of "CacheService_set 0 (CacheService_init 60) (u ''CSOPESY'') (u ''123'') (Some [])"
      "u ''CSOPESY''" "u ''123''" 60000000 60 "[]"]
    is_valid_examples
  by (simp add: CacheService_set_def CacheService_init_def get_cache_key_def)

section \<open>Properties of the scraper service\<close>

lemma cache_get_hit:
  "holds_valid ev w crs sid e \<Longrightarrow>
   cache_get ev w crs sid =
     (data e,
      w\<lparr>cache_svc := (cache_svc w)\<lparr>hits := hits (cache_svc w) + 1\<rparr>,
        clock_reads := Suc (clock_reads w)\<rparr>)"
  by (simp add: holds_valid_def cache_get_def CacheService_get_def)

lemma cache_get_none:
  "\<not> (\<exists>e d. holds_valid ev w crs sid e \<and> data e = Some d) \<Longrightarrow>
   fst (cache_get ev w crs sid) = None"
  by (auto simp: holds_valid_def cache_get_def CacheService_get_def split: option.splits)

lemma cache_get_requests: "requests (snd (cache_get ev w crs sid)) = requests w"
  by (auto simp: cache_get_def CacheService_get_def split: option.splits)

lemma cache_set_entry:
  "map_of (cache (cache_svc (cache_set ev w crs sid d))) (get_cache_key crs sid) =
     Some \<lparr>ce_course = crs, ce_student_id = sid, data = d,
           timestamp = clock ev (clock_reads w)\<rparr> \<and>
   requests (cache_set ev w crs sid d) = requests w"
  by (simp add: cache_set_def CacheService_set_def update_conv')

lemma fetch_course_data_hit:
  assumes "use_cache" "CACHE_ENABLED ev" "holds_valid ev w crs sid e" "data e = Some d"
  shows "fst (fetch_course_data ev w crs sid use_cache) = Inr (Some d) \<and>
         requests (snd (fetch_course_data ev w crs sid use_cache)) = requests w"
  using assms by (simp add: fetch_course_data_def cache_get_hit)

lemma fetch_course_data_miss:
  assumes "\<not> (use_cache \<and> CACHE_ENABLED ev \<and> (\<exists>e d. holds_valid ev w crs sid e \<and> data e = Some d))"
  shows "requests (snd (fetch_course_data ev w crs sid use_cache)) = requests w @ [(crs, sid)] \<and>
         (\<forall>b. http_get ev (length (requests w)) crs sid = Response 200 b \<longrightarrow>
            fst (fetch_course_data ev w crs sid use_cache) = Inr b \<and>
            (CACHE_ENABLED ev \<longrightarrow>
               map_option data
                 (map_of (cache (cache_svc (snd (fetch_course_data ev w crs sid use_cache))))
                    (get_cache_key crs sid)) = Some b))"
proof (cases "use_cache \<and> CACHE_ENABLED ev")
  case True
  with assms have m: "\<not> (\<exists>e d. holds_valid ev w crs sid e \<and> data e = Some d)" by simp
  obtain r w1 where g: "cache_get ev w crs sid = (r, w1)" by (cases "cache_get ev w crs sid")
  with cache_get_none [OF m] cache_get_requests [of ev w crs sid]
  have r: "r = None" "requests w1 = requests w" by simp_all
  show ?thesis using True g r
    by (auto simp: fetch_course_data_def Let_def cache_set_entry split: http_reply.splits)
next
  case False
  then show ?thesis
    by (auto simp: fetch_course_data_def Let_def cache_set_entry split: http_reply.splits)
qed

lemma fetch_and_filter_data_snd:
  "snd (fetch_and_filter_data ev w crs sid nums use_cache) =
   snd (fetch_course_data ev w crs sid use_cache)"
proof (cases "fetch_course_data ev w crs sid use_cache")
  case (Pair r w')
  show ?thesis
  proof (cases r)
    case (Inl e)
    with Pair show ?thesis by (cases e) (simp_all add: fetch_and_filter_data_def)
  next
    case (Inr d)
    with Pair show ?thesis by (cases d) (simp_all add: fetch_and_filter_data_def)
  qed
qed

lemma fetch_and_filter_data_ok:
  assumes "fst (fetch_course_data ev w crs sid use_cache) = Inr (Some d)"
  shows "fst (fetch_and_filter_data ev w crs sid nums use_cache) =
         Inr (Some (filter_sections nums d))"
proof -
  obtain w' where "fetch_course_data ev w crs sid use_cache = (Inr (Some d), w')"
    using assms by (cases "fetch_course_data ev w crs sid use_cache") simp
  then show ?thesis by (simp add: fetch_and_filter_data_def)
qed

lemma fetch_and_filter_data_null:
  assumes "fst (fetch_course_data ev w crs sid use_cache) = Inr None"
  shows "fst (fetch_and_filter_data ev w crs sid nums use_cache) = Inr None"
proof -
  obtain w' where "fetch_course_data ev w crs sid use_cache = (Inr None, w')"
    using assms by (cases "fetch_course_data ev w crs sid use_cache") simp
  then show ?thesis by (simp add: fetch_and_filter_data_def)
qed

lemma filter_sections_nonempty:
  "ns \<noteq> [] \<Longrightarrow>
   filter_sections (Some ns) d = filter (\<lambda>s. \<exists>k\<in>set ns. classNbr s = Some k) d"
  by (cases ns) (auto simp: filter_sections_def intro!: filter_cong split: option.splits)

text \<open>
  C5, as the claim states it, fails twice. A filter that is given but empty is not
  applied (\<open>if class_numbers:\<close>), so the whole snapshot comes back, where the claim asks
  for the sections whose class number is in the empty set. And a reply whose JSON value is
  \<open>null\<close> is cached as \<open>None\<close>: one second later the cache holds a valid entry for the
  key, but its data fails the test \<open>cached_data is not None\<close> and the scraper API is asked
  a second time.
\<close>

theorem fetch_and_filter_data_counterexample:
  "fst (fetch_and_filter_data (example_env (\<lambda>crs. Response 200 (Some two_sections)) True)
          (example_world []) (u ''CSOPESY'') (u ''123'') (Some []) True) =
     Inr (Some two_sections) \<and>
   holds_valid (example_env (\<lambda>crs. Response 200 None) True)
     (snd (fetch_and_filter_data (example_env (\<lambda>crs. Response 200 None) True)
             (example_world []) (u ''CSOPESY'') (u ''123'') None True))
     (u ''CSOPESY'') (u ''123'')
     \<lparr>ce_course = u ''CSOPESY'', ce_student_id = u ''123'', data = None, timestamp = 0\<rparr> \<and>
   requests (snd (fetch_and_filter_data (example_env (\<lambda>crs. Response 200 None) True)
     (snd (fetch_and_filter_data (example_env (\<lambda>crs. Response 200 None) True)
             (example_world []) (u ''CSOPESY'') (u ''123'') None True))
     (u ''CSOPESY'') (u ''123'') None True)) =
     [(u ''CSOPESY'', u ''123''), (u ''CSOPESY'', u ''123'')]"
proof -
  let ?ev = "example_env (\<lambda>crs. Response 200 None) True"
  let ?w1 = "(example_world [])
      \<lparr>cache_svc := (CacheService_set 0 (CacheService_init 60) (u ''CSOPESY'') (u ''123'') None)
                      \<lparr>misses := 1\<rparr>,
        clock_reads := 1, requests := [(u ''CSOPESY'', u ''123'')]\<rparr>"
  have a: "fst (fetch_and_filter_data (example_env (\<lambda>crs. Response 200 (Some two_sections)) True)
          (example_world []) (u ''CSOPESY'') (u ''123'') (Some []) True) =
     Inr (Some two_sections)"
    by (simp add: fetch_and_filter_data_def fetch_course_data_def cache_get_def cache_set_def
      CacheService_get_def CacheService_init_def example_env_def example_world_def
      filter_sections_def)
  have b: "snd (fetch_and_filter_data ?ev (example_world []) (u ''CSOPESY'') (u ''123'') None True)
      = ?w1"
    by (simp add: fetch_and_filter_data_def fetch_course_data_def cache_get_def cache_set_def
      CacheService_get_def CacheService_set_def CacheService_init_def example_env_def
      example_world_def)
  have c: "holds_valid ?ev ?w1 (u ''CSOPESY'') (u ''123'')
     \<lparr>ce_course = u ''CSOPESY'', ce_student_id = u ''123'', data = None, timestamp = 0\<rparr>"
    using is_valid_examples
    by (simp add: holds_valid_def example_world_def example_env_def CacheService_init_def
        CacheService_set_def)
  have d: "requests (snd (fetch_and_filter_data ?ev ?w1 (u ''CSOPESY'') (u ''123'') None True)) =
     [(u ''CSOPESY'', u ''123''), (u ''CSOPESY'', u ''123'')]"
    unfolding fetch_and_filter_data_snd
    using cache_get_hit [OF c] cache_get_requests [of ?ev ?w1 "u ''CSOPESY''" "u ''123''"]
    by (simp add: fetch_course_data_def example_env_def example_world_def cache_set_def
        split: prod.splits)
  show ?thesis unfolding b using a c d by simp
qed

text \<open>
  C5, amended. With caching enabled (\<open>use_cache\<close> and \<open>CACHE_ENABLED\<close>) and a valid entry
  in the cache for the key of (course, identity) whose data is a snapshot, no request is
  made and the entry's data is returned. Otherwise (no entry, an expired one, one whose
  data is \<open>None\<close>, or caching off) exactly one request is made; on a reply 200 with a
  snapshot the cache, when enabled, holds the whole unfiltered snapshot under the key, also
  when a filter was requested. The returned snapshot, when a filter is given and not
  empty, is exactly the sections whose class number is in the filter, in the order of the
  unfiltered snapshot; with no filter or with an empty one it is the whole snapshot.
\<close>

theorem fetch_and_filter_data_cache:
  "(use_cache \<and> CACHE_ENABLED ev \<and> holds_valid ev w crs sid e \<and> data e = Some d \<longrightarrow>
      fst (fetch_and_filter_data ev w crs sid nums use_cache) =
        Inr (Some (filter_sections nums d)) \<and>
      requests (snd (fetch_and_filter_data ev w crs sid nums use_cache)) = requests w) \<and>
   (\<not> (use_cache \<and> CACHE_ENABLED ev \<and>
        (\<exists>e d. holds_valid ev w crs sid e \<and> data e = Some d)) \<longrightarrow>
      requests (snd (fetch_and_filter_data ev w crs sid nums use_cache)) =
        requests w @ [(crs, sid)] \<and>
      (\<forall>d. http_get ev (length (requests w)) crs sid = Response 200 (Some d) \<longrightarrow>
         fst (fetch_and_filter_data ev w crs sid nums use_cache) =
           Inr (Some (filter_sections nums d)) \<and>
         (CACHE_ENABLED ev \<longrightarrow>
            map_option data
              (map_of (cache (cache_svc (snd (fetch_and_filter_data ev w crs sid nums use_cache))))
                 (get_cache_key crs sid)) = Some (Some d)))) \<and>
   (\<forall>ns d. ns \<noteq> [] \<longrightarrow>
      filter_sections (Some ns) d = filter (\<lambda>s. \<exists>k\<in>set ns. classNbr s = Some k) d) \<and>
   (\<forall>d. filter_sections None d = d \<and> filter_sections (Some []) d = d)"
proof (intro conjI impI allI)
  assume h: "use_cache \<and> CACHE_ENABLED ev \<and> holds_valid ev w crs sid e \<and> data e = Some d"
  then have f: "fst (fetch_course_data ev w crs sid use_cache) = Inr (Some d)"
      "requests (snd (fetch_course_data ev w crs sid use_cache)) = requests w"
    using fetch_course_data_hit [of use_cache ev w crs sid e d] by simp_all
  show "fst (fetch_and_filter_data ev w crs sid nums use_cache) =
        Inr (Some (filter_sections nums d))"
    using f(1) by (rule fetch_and_filter_data_ok)
  show "requests (snd (fetch_and_filter_data ev w crs sid nums use_cache)) = requests w"
    using f(2) by (simp add: fetch_and_filter_data_snd)
next
  assume m: "\<not> (use_cache \<and> CACHE_ENABLED ev \<and>
        (\<exists>e d. holds_valid ev w crs sid e \<and> data e = Some d))"
  note f = fetch_course_data_miss [OF m]
  show "requests (snd (fetch_and_filter_data ev w crs sid nums use_cache)) =
        requests w @ [(crs, sid)]"
    using f by (simp add: fetch_and_filter_data_snd)
  fix d assume r: "http_get ev (length (requests w)) crs sid = Response 200 (Some d)"
  show "fst (fetch_and_filter_data ev w crs sid nums use_cache) =
           Inr (Some (filter_sections nums d))"
    using f r by (simp add: fetch_and_filter_data_ok)
  assume "CACHE_ENABLED ev"
  then show "map_option data
              (map_of (cache (cache_svc (snd (fetch_and_filter_data ev w crs sid nums use_cache))))
                 (get_cache_key crs sid)) = Some (Some d)"
    using f r unfolding fetch_and_filter_data_snd by blast
next
  fix ns :: "int list" and d assume "ns \<noteq> []"
  then show "filter_sections (Some ns) d = filter (\<lambda>s. \<exists>k\<in>set ns. classNbr s = Some k) d"
    by (rule filter_sections_nonempty)
next
  fix d show "filter_sections None d = d" by (simp add: filter_sections_def)
next
  fix d show "filter_sections (Some []) d = d" by (simp add: filter_sections_def)
qed

theorem fetch_and_filter_data_cache_witness:
  "fst (fetch_and_filter_data (example_env (\<lambda>crs. Response 200 (Some two_sections)) True)
          (example_world []) (u ''CSOPESY'') (u ''123'') (Some [2222]) True) =
     Inr (Some [sec ''CSOPESY'' ''S12'' (Some 2222) (Some (PInt 30))]) \<and>
   requests (snd (fetch_and_filter_data (example_env (\<lambda>crs. Response 200 (Some two_sections)) True)
          (example_world []) (u ''CSOPESY'') (u ''123'') (Some [2222]) True)) =
     [(u ''CSOPESY'', u ''123'')] \<and>
   map_option data (map_of (cache (cache_svc (snd
       (fetch_and_filter_data (example_env (\<lambda>crs. Response 200 (Some two_sections)) True)
          (example_world []) (u ''CSOPESY'') (u ''123'') (Some [2222]) True))))
       (get_cache_key (u ''CSOPESY'') (u ''123''))) = Some (Some two_sections) \<and>
   fst (fetch_and_filter_data (example_env (\<lambda>crs. TimeoutError) True)
          ((example_world [])\<lparr>cache_svc :=
              CacheService_set 0 (CacheService_init 60) (u ''CSOPESY'') (u ''123'')
                (Some two_sections)\<rparr>)
          (u ''CSOPESY'') (u ''123'') (Some [2222]) True) =
     Inr (Some [sec ''CSOPESY'' ''S12'' (Some 2222) (Some (PInt 30))]) \<and>
   requests (snd (fetch_and_filter_data (example_env (\<lambda>crs. TimeoutError) True)
          ((example_world [])\<lparr>cache_svc :=
              CacheService_set 0 (CacheService_init 60) (u ''CSOPESY'') (u ''123'')
                (Some two_sections)\<rparr>)
          (u ''CSOPESY'') (u ''123'') (Some [2222]) True)) = []"
proof -
  let ?ev = "example_env (\<lambda>crs. Response 200 (Some two_sections)) True"
  let ?ev' = "example_env (\<lambda>crs. TimeoutError) True"
  let ?w = "example_world []"
  let ?w' = "(example_world [])\<lparr>cache_svc :=
              CacheService_set 0 (CacheService_init 60) (u ''CSOPESY'') (u ''123'')
                (Some two_sections)\<rparr>"
  let ?e = "\<lparr>ce_course = u ''CSOPESY'', ce_student_id = u ''123'', data = Some two_sections,
             timestamp = 0\<rparr>"
  have miss: "\<not> (True \<and> CACHE_ENABLED ?ev \<and>
      (\<exists>e d. holds_valid ?ev ?w (u ''CSOPESY'') (u ''123'') e \<and> data e = Some d))"
    by (simp add: holds_valid_def example_world_def CacheService_init_def)
  have reply: "http_get ?ev (length (requests ?w)) (u ''CSOPESY'') (u ''123'') =
      Response 200 (Some two_sections)"
    by (simp add: example_env_def)
  have en: "CACHE_ENABLED ?ev" "CACHE_ENABLED ?ev'" by (simp_all add: example_env_def)
  have hit: "holds_valid ?ev' ?w' (u ''CSOPESY'') (u ''123'') ?e"
    using is_valid_examples
    by (simp add: holds_valid_def example_world_def example_env_def CacheService_init_def
        CacheService_set_def)
  have de: "data ?e = Some two_sections" by simp
  have f: "filter_sections (Some [2222]) two_sections =
      [sec ''CSOPESY'' ''S12'' (Some 2222) (Some (PInt 30))]"
    by (simp add: filter_sections_def two_sections_def sec_def)
  have rq: "requests ?w = []" "requests ?w' = []" by (simp_all add: example_world_def)
  show ?thesis
    using fetch_and_filter_data_cache
        [of True ?ev ?w "u ''CSOPESY''" "u ''123''" ?e two_sections "Some [2222]"]
      fetch_and_filter_data_cache
        [of True ?ev' ?w' "u ''CSOPESY''" "u ''123''" ?e two_sections "Some [2222]"]
      miss reply en hit de f rq
    by simp
qed

section \<open>Properties of the chunking\<close>

lemma join_snoc: "xs \<noteq> [] \<Longrightarrow> join sep (xs @ [l]) = join sep xs @ sep @ l"
  by (induction sep xs rule: join.induct) auto

lemma join_nonempty: "x \<noteq> [] \<Longrightarrow> join sep (x # xs) \<noteq> []"
  by (cases xs) auto

lemma chunk_of_empty: "chunk_of g = [] \<longleftrightarrow> (\<forall>l\<in>set g. l = [])"
proof (cases "dropWhile (\<lambda>l. l = []) g")
  case Nil
  then have "\<forall>l\<in>set g. l = []" by (simp add: dropWhile_eq_Nil_conv)
  with Nil show ?thesis unfolding chunk_of_def by (simp del: dropWhile_eq_Nil_conv)
next
  case (Cons x xs)
  then have "x \<noteq> []" using hd_dropWhile [of "\<lambda>l. l = []" g] by auto
  moreover have "\<not> (\<forall>l\<in>set g. l = [])"
    using Cons dropWhile_eq_Nil_conv [of "\<lambda>l. l = []" g] by auto
  ultimately show ?thesis using Cons by (simp add: chunk_of_def join_nonempty)
qed

lemma chunk_of_single: "chunk_of [l] = l"
  by (simp add: chunk_of_def)

lemma chunk_of_snoc:
  "chunk_of (g @ [l]) = chunk_of g @ (if chunk_of g \<noteq> [] then [10, 10] else []) @ l"
proof (cases "\<forall>x\<in>set g. x = []")
  case True
  then have d: "dropWhile (\<lambda>l. l = []) g = []" by (simp add: dropWhile_eq_Nil_conv)
  have "dropWhile (\<lambda>l. l = []) (g @ [l]) = dropWhile (\<lambda>l. l = []) [l]"
    using True by (simp add: dropWhile_append)
  with d show ?thesis unfolding chunk_of_def by (simp del: dropWhile_eq_Nil_conv)
next
  case False
  then have n: "dropWhile (\<lambda>l. l = []) g \<noteq> []" by (simp add: dropWhile_eq_Nil_conv)
  have "chunk_of g \<noteq> []" using False chunk_of_empty by blast
  moreover have "dropWhile (\<lambda>l. l = []) (g @ [l]) = dropWhile (\<lambda>l. l = []) g @ [l]"
    using False by (auto simp: dropWhile_append)
  ultimately show ?thesis using n by (simp add: chunk_of_def join_snoc)
qed

lemma chunk_loop_groups:
  "\<exists>gs g'. g @ ls = concat (gs @ [g']) \<and>
     chunk_loop lim chunks (chunk_of g) ls =
       chunks @ map (\<lambda>g. strip (chunk_of g)) gs @
       (if chunk_of g' = [] then [] else [strip (chunk_of g')]) \<and>
     take (length g) (hd (gs @ [g'])) = g \<and>
     fitted lim g (drop (length g) (hd (gs @ [g']))) \<and>
     greedy lim (gs @ [g'])"
proof (induction ls arbitrary: g chunks)
  case Nil
  have "g @ [] = concat ([] @ [g]) \<and>
     chunk_loop lim chunks (chunk_of g) [] =
       chunks @ map (\<lambda>g. strip (chunk_of g)) [] @
       (if chunk_of g = [] then [] else [strip (chunk_of g)]) \<and>
     take (length g) (hd ([] @ [g])) = g \<and>
     fitted lim g (drop (length g) (hd ([] @ [g]))) \<and>
     greedy lim ([] @ [g])"
    by simp
  then show ?case by blast
next
  case (Cons l ls)
  show ?case
  proof (cases "fits lim g l")
    case False
    from Cons [of "[l]" "chunks @ [strip (chunk_of g)]"]
    obtain gs g' where gr: "[l] @ ls = concat (gs @ [g'])"
      "chunk_loop lim (chunks @ [strip (chunk_of g)]) (chunk_of [l]) ls =
         (chunks @ [strip (chunk_of g)]) @ map (\<lambda>g. strip (chunk_of g)) gs @
         (if chunk_of g' = [] then [] else [strip (chunk_of g')])"
      "take (length [l]) (hd (gs @ [g'])) = [l]"
      "fitted lim [l] (drop (length [l]) (hd (gs @ [g'])))" "greedy lim (gs @ [g'])"
      by blast
    obtain h hs where hs: "gs @ [g'] = h # hs" by (cases "gs @ [g']") auto
    have h: "h \<noteq> [] \<and> hd h = l" using gr(3) hs by (cases h) auto
    have "fitted lim [hd h] (tl h)" using gr(4) hs h by (cases h) auto
    then have gre: "greedy lim ((g # gs) @ [g'])"
      using hs h gr(5) False by simp
    have A: "chunk_loop lim chunks (chunk_of g) (l # ls) =
        chunks @ map (\<lambda>g. strip (chunk_of g)) (g # gs) @
        (if chunk_of g' = [] then [] else [strip (chunk_of g')])"
      using False gr(2) by (simp add: chunk_of_single Let_def fits_def)
    have B: "g @ l # ls = concat ((g # gs) @ [g'])" using gr(1) by simp
    have C: "take (length g) (hd ((g # gs) @ [g'])) = g" by simp
    have D: "fitted lim g (drop (length g) (hd ((g # gs) @ [g'])))" by simp
    from A B C D gre show ?thesis by blast
  next
    case True
    from Cons [of "g @ [l]" chunks]
    obtain gs g' where gr: "(g @ [l]) @ ls = concat (gs @ [g'])"
      "chunk_loop lim chunks (chunk_of (g @ [l])) ls =
         chunks @ map (\<lambda>g. strip (chunk_of g)) gs @
         (if chunk_of g' = [] then [] else [strip (chunk_of g')])"
      "take (length (g @ [l])) (hd (gs @ [g'])) = g @ [l]"
      "fitted lim (g @ [l]) (drop (length (g @ [l])) (hd (gs @ [g'])))" "greedy lim (gs @ [g'])"
      by blast
    let ?h = "hd (gs @ [g'])"
    have len: "length g < length ?h"
    proof -
      have "length (take (length (g @ [l])) ?h) = length (g @ [l])" using gr(3) by simp
      then show ?thesis by simp
    qed
    have nth: "?h ! length g = l"
    proof -
      have "take (length (g @ [l])) ?h ! length g = ?h ! length g" by simp
      with gr(3) show ?thesis by simp
    qed
    have t: "take (length g) ?h = g"
    proof -
      from gr(3) have "take (length g) (take (length (g @ [l])) ?h) = take (length g) (g @ [l])"
        by simp
      then show ?thesis by (simp add: min_def)
    qed
    have d: "drop (length g) ?h = l # drop (Suc (length g)) ?h"
      using Cons_nth_drop_Suc [OF len] nth by simp
    have f: "fitted lim g (drop (length g) ?h)"
      using gr(4) True unfolding d by simp
    have "chunk_loop lim chunks (chunk_of g) (l # ls) = chunk_loop lim chunks (chunk_of (g @ [l])) ls"
      using True by (simp add: chunk_of_snoc Let_def fits_def)
    moreover have "g @ l # ls = concat (gs @ [g'])" using gr(1) by simp
    ultimately show ?thesis using gr(2,5) t f by metis
  qed
qed

lemma greedy_concat_empty: "greedy lim (g # gs) \<Longrightarrow> concat gs = [] \<Longrightarrow> gs = []"
proof (cases gs)
  case Nil
  then show ?thesis by simp
next
  case (Cons a as)
  assume "greedy lim (g # gs)" "concat gs = []"
  with Cons show ?thesis by auto
qed

lemma packing_unique:
  "fitted lim p g \<Longrightarrow> greedy lim ((p @ g) # gs) \<Longrightarrow>
   fitted lim p g' \<Longrightarrow> greedy lim ((p @ g') # gs') \<Longrightarrow>
   g @ concat gs = ls \<Longrightarrow> g' @ concat gs' = ls \<Longrightarrow> g = g' \<and> gs = gs'"
proof (induction ls arbitrary: p g gs g' gs')
  case Nil
  then have "g = []" "g' = []" "concat gs = []" "concat gs' = []" by auto
  with Nil.prems(2,4) show ?case using greedy_concat_empty by blast
next
  case (Cons l ls)
  have start: "g = [] \<Longrightarrow> \<exists>h hs. gs = h # hs \<and> h \<noteq> [] \<and> hd h = l \<and> \<not> fits lim p l \<and>
      fitted lim [l] (tl h) \<and> greedy lim (([l] @ tl h) # hs) \<and> tl h @ concat hs = ls"
    if "greedy lim ((p @ g) # gs)" "g @ concat gs = l # ls" for g gs
  proof -
    assume e: "g = []"
    with that(2) obtain h hs where hs: "gs = h # hs" by (cases gs) auto
    with that(1) e have n: "h \<noteq> []" "\<not> fits lim p (hd h)" "fitted lim [hd h] (tl h)" "greedy lim (h # hs)"
      by auto
    from n(1) that(2) e hs have "hd h = l" "tl h @ concat hs = ls" by (cases h; simp)+
    with n hs show ?thesis by (cases h) auto
  qed
  have step: "fits lim p l \<and> fitted lim (p @ [l]) g1 \<and> greedy lim (((p @ [l]) @ g1) # gs) \<and>
      g1 @ concat gs = ls"
    if "fitted lim p g" "greedy lim ((p @ g) # gs)" "g @ concat gs = l # ls" "g = x # g1" for g gs x g1
    using that by auto
  show ?case
  proof (cases g)
    case Nil
    from start [OF Cons.prems(2,5) Nil] obtain h hs where a: "gs = h # hs" "h \<noteq> []" "hd h = l"
      "\<not> fits lim p l" "fitted lim [l] (tl h)" "greedy lim (([l] @ tl h) # hs)" "tl h @ concat hs = ls"
      by blast
    show ?thesis
    proof (cases g')
      case Nil': Nil
      from start [OF Cons.prems(4,6) Nil'] obtain h' hs' where b: "gs' = h' # hs'" "h' \<noteq> []" "hd h' = l"
        "fitted lim [l] (tl h')" "greedy lim (([l] @ tl h') # hs')" "tl h' @ concat hs' = ls"
        by blast
      from Cons.IH [OF a(5,6) b(4,5) a(7) b(6)] have "tl h = tl h'" "hs = hs'" by simp_all
      with a b have "h = h'" by (metis list.collapse)
      with Nil Nil' a(1) b(1) \<open>hs = hs'\<close> show ?thesis by simp
    next
      case (Cons x g1)
      from step [OF Cons.prems(3,4,6) Cons] a(4) show ?thesis by simp
    qed
  next
    case c: (Cons x g1)
    from step [OF Cons.prems(1,2,5) c] have s: "fits lim p l" "fitted lim (p @ [l]) g1"
      "greedy lim (((p @ [l]) @ g1) # gs)" "g1 @ concat gs = ls" by simp_all
    have x: "x = l" using Cons.prems(5) c by simp
    show ?thesis
    proof (cases g')
      case Nil
      from start [OF Cons.prems(4,6) Nil] s(1) show ?thesis by blast
    next
      case c': (Cons x' g1')
      from step [OF Cons.prems(3,4,6) c'] have s': "fitted lim (p @ [l]) g1'"
        "greedy lim (((p @ [l]) @ g1') # gs')" "g1' @ concat gs' = ls" by simp_all
      have x': "x' = l" using Cons.prems(6) c' by simp
      from Cons.IH [OF s(2,3) s'(1,2) s(4) s'(3)] c c' x x' show ?thesis by simp
    qed
  qed
qed

lemma packed_unique:
  assumes "packed lim G" "packed lim G'" "concat G = concat G'"
  shows "G = G'"
proof -
  from assms(1) obtain g gs where G: "G = g # gs" "fitted lim [] g" "greedy lim (([] @ g) # gs)"
    by (cases G) (auto simp: packed_def)
  from assms(2) obtain g' gs' where G': "G' = g' # gs'" "fitted lim [] g'" "greedy lim (([] @ g') # gs')"
    by (cases G') (auto simp: packed_def)
  have "g @ concat gs = concat G" "g' @ concat gs' = concat G" using G(1) G'(1) assms(3) by simp_all
  from packing_unique [OF G(2,3) G'(2,3) this] G(1) G'(1) show ?thesis by simp
qed

lemma strip_blank: "strip ([10, 10] @ s) = strip s"
  by (simp add: strip_def isspace_def)

lemma strip_chunk_of: "strip (chunk_of g) = strip (join [10, 10] g)"
proof (induction g)
  case Nil
  then show ?case by (simp add: chunk_of_def)
next
  case (Cons x xs)
  show ?case
  proof (cases "x = []")
    case False
    then show ?thesis by (simp add: chunk_of_def)
  next
    case True
    then have c: "chunk_of (x # xs) = chunk_of xs" by (simp add: chunk_of_def)
    show ?thesis
    proof (cases xs)
      case Nil
      with True show ?thesis by (simp add: chunk_of_def)
    next
      case (Cons y ys)
      then have "join [10, 10] (x # xs) = [10, 10] @ join [10, 10] xs" using True by simp
      then show ?thesis using c Cons.IH strip_blank by simp
    qed
  qed
qed

lemma length_strip: "length (strip s) \<le> length s"
proof -
  have "length (strip s) \<le> length (dropWhile isspace s)"
    unfolding strip_def using length_dropWhile_le [of isspace "rev (dropWhile isspace s)"] by simp
  also have "\<dots> \<le> length s" by (rule length_dropWhile_le)
  finally show ?thesis .
qed

lemma chunk_loop_bound:
  "\<forall>c\<in>set chunks. length c \<le> lim \<Longrightarrow> length cur \<le> lim \<Longrightarrow>
   \<forall>l\<in>set ls. length l \<le> lim \<Longrightarrow>
   \<forall>c\<in>set (chunk_loop lim chunks cur ls). length c \<le> lim"
proof (induction ls arbitrary: chunks cur)
  case Nil
  then show ?case using length_strip [of cur] by auto
next
  case (Cons l ls)
  let ?lws = "(if cur \<noteq> [] then [10, 10] else []) @ l"
  show ?case
  proof (cases "length cur + length ?lws > lim")
    case True
    have "\<forall>c\<in>set (chunks @ [strip cur]). length c \<le> lim"
      using Cons.prems(1,2) length_strip [of cur] by auto
    from Cons.IH [OF this, of l] Cons.prems(3) True show ?thesis by (simp add: Let_def)
  next
    case False
    then have "length (cur @ ?lws) \<le> lim" by simp
    from Cons.IH [OF Cons.prems(1) this] Cons.prems(3) False show ?thesis by (simp add: Let_def)
  qed
qed

lemma send_chunks_deliver:
  assumes "\<forall>k c t. send_message ev k c t"
  shows "fst (send_chunks ev chat title n idx cs w) = Inr () \<and>
         sent (snd (send_chunks ev chat title n idx cs w)) =
           sent w @ map (\<lambda>i. (chat, full_message title n (idx + i) (cs ! i))) [0..<length cs]"
proof (induction cs arbitrary: idx w)
  case Nil
  show ?case by simp
next
  case (Cons c cs)
  let ?w1 = "w\<lparr>send_calls := Suc (send_calls w),
               sent := sent w @ [(chat, full_message title n idx c)]\<rparr>"
  have b: "bot_send ev w chat (full_message title n idx c) = (True, ?w1)"
    using assms by (simp add: bot_send_def)
  have u: "[0..<length (c # cs)] = 0 # map Suc [0..<length cs]"
    by (simp add: upt_conv_Cons map_Suc_upt del: upt_Suc)
  show ?case
    using Cons [of "Suc idx" ?w1] b unfolding u by (simp add: comp_def)
qed


text \<open>
  C4, as the claim states it, fails. With a limit of 20 and the title \<open>T\<close>, one block of
  12 characters that ends in a newline gives one message of 11 characters: the block is
  within the limit and is in no message whole, \<open>strip\<close> removed its newline. With a
  limit of 20 and an empty title, two blocks give two chunks, and the two messages carry
  no label.
\<close>

theorem send_long_message_counterexample:
  "sent (snd (send_long_message
       ((example_env (\<lambda>crs. TimeoutError) True)\<lparr>MAX_TEXT_LENGTH := 20\<rparr>) (example_world []) 7
       [u ''first block'' @ [10]] (u ''T''))) =
     [(7, u ''first block'')] \<and>
   length (u ''first block'' @ [10 :: nat]) \<le> 20 \<and>
   sent (snd (send_long_message
       ((example_env (\<lambda>crs. TimeoutError) True)\<lparr>MAX_TEXT_LENGTH := 20\<rparr>) (example_world []) 7
       [u ''first block'' @ [10], u ''second block''] [])) =
     [(7, u ''first block''), (7, u ''second block'')]"
  by (simp add: send_long_message_def split_chunks_def full_message_def bot_send_def
      example_env_def example_world_def strip_def isspace_def)

text \<open>
  C4, amended. For every list of blocks and every limit: the blocks are, in order, the
  blocks of the one packed list of groups for the limit (a block joins the group before
  it exactly when the chunk of that group, a blank line and the block are together at
  most the limit long); the chunks are the groups, each with its blocks joined by a blank
  line and stripped of its leading and trailing whitespace, where a last group of empty
  blocks alone gives no chunk; when every block is at most the limit long, so is every
  chunk. When every send delivers, the messages sent are, for more than one chunk and a
  title that is not empty, the chunks each behind the header \<open>*title* (part i/N)\<close> and a
  blank line, and else the chunks alone.
\<close>

theorem send_long_message_chunks:
  "(\<exists>gs g. text_lines = concat (gs @ [g]) \<and> packed lim (gs @ [g]) \<and>
      (\<forall>groups. packed lim groups \<and> concat groups = text_lines \<longrightarrow> groups = gs @ [g]) \<and>
      split_chunks lim text_lines =
        map (\<lambda>g. strip (join [10, 10] g)) gs @
        (if concat g = [] then [] else [strip (join [10, 10] g)])) \<and>
   ((\<forall>l\<in>set text_lines. length l \<le> lim) \<longrightarrow>
      (\<forall>c\<in>set (split_chunks lim text_lines). length c \<le> lim)) \<and>
   ((\<forall>k c t. send_message ev k c t) \<longrightarrow>
      fst (send_long_message ev w chat text_lines title) = Inr () \<and>
      sent (snd (send_long_message ev w chat text_lines title)) =
        sent w @ map (Pair chat)
          (let chunks = split_chunks (MAX_TEXT_LENGTH ev) text_lines; n = length chunks
           in if n > 1 \<and> title \<noteq> []
              then map (\<lambda>i. u ''*'' @ title @ u ''* (part '' @ str_nat (Suc i) @ u ''/'' @
                             str_nat n @ [41, 10, 10] @ chunks ! i) [0..<n]
              else chunks))"
proof (intro conjI impI)
  from chunk_loop_groups [of "[]" text_lines lim "[]"]
  obtain gs g where gr: "text_lines = concat (gs @ [g])"
    "split_chunks lim text_lines =
       map (\<lambda>g. strip (chunk_of g)) gs @ (if chunk_of g = [] then [] else [strip (chunk_of g)])"
    "fitted lim [] (hd (gs @ [g]))" "greedy lim (gs @ [g])"
    by (auto simp: split_chunks_def chunk_of_def)
  have p: "packed lim (gs @ [g])" using gr(3,4) by (simp add: packed_def)
  have e: "chunk_of g = [] \<longleftrightarrow> concat g = []" by (simp add: chunk_of_empty)
  have un: "\<forall>groups. packed lim groups \<and> concat groups = text_lines \<longrightarrow> groups = gs @ [g]"
    using packed_unique [OF _ p] gr(1) by blast
  have "split_chunks lim text_lines =
        map (\<lambda>g. strip (join [10, 10] g)) gs @
        (if concat g = [] then [] else [strip (join [10, 10] g)])"
    using gr(2) unfolding strip_chunk_of e .
  with gr(1) p un show "\<exists>gs g. text_lines = concat (gs @ [g]) \<and> packed lim (gs @ [g]) \<and>
      (\<forall>groups. packed lim groups \<and> concat groups = text_lines \<longrightarrow> groups = gs @ [g]) \<and>
      split_chunks lim text_lines =
        map (\<lambda>g. strip (join [10, 10] g)) gs @
        (if concat g = [] then [] else [strip (join [10, 10] g)])"
    by blast
next
  assume "\<forall>l\<in>set text_lines. length l \<le> lim"
  then show "\<forall>c\<in>set (split_chunks lim text_lines). length c \<le> lim"
    unfolding split_chunks_def by (intro chunk_loop_bound) simp_all
next
  assume d: "\<forall>k c t. send_message ev k c t"
  show "fst (send_long_message ev w chat text_lines title) = Inr ()"
    using send_chunks_deliver [OF d] by (simp add: send_long_message_def Let_def)
  let ?cs = "split_chunks (MAX_TEXT_LENGTH ev) text_lines"
  have "map (\<lambda>i. (chat, full_message title (length ?cs) (1 + i) (?cs ! i))) [0..<length ?cs] =
        map (Pair chat)
          (if length ?cs > 1 \<and> title \<noteq> []
           then map (\<lambda>i. u ''*'' @ title @ u ''* (part '' @ str_nat (Suc i) @ u ''/'' @
                          str_nat (length ?cs) @ [41, 10, 10] @ ?cs ! i) [0..<length ?cs]
           else ?cs)"
    by (auto simp: full_message_def map_nth intro!: nth_equalityI)
  then show "sent (snd (send_long_message ev w chat text_lines title)) =
        sent w @ map (Pair chat)
          (let chunks = split_chunks (MAX_TEXT_LENGTH ev) text_lines; n = length chunks
           in if n > 1 \<and> title \<noteq> []
              then map (\<lambda>i. u ''*'' @ title @ u ''* (part '' @ str_nat (Suc i) @ u ''/'' @
                             str_nat n @ [41, 10, 10] @ chunks ! i) [0..<n]
              else chunks)"
    using send_chunks_deliver [OF d, of chat title "length ?cs" 1 ?cs w]
    by (simp add: send_long_message_def Let_def)
qed

theorem send_long_message_chunks_witness:
  "sent (snd (send_long_message (example_env (\<lambda>crs. TimeoutError) True) (example_world []) 7
       [u ''first block'' @ [10], u ''second block''] (u ''T''))) =
     [(7, u ''first block'' @ [10, 10, 10] @ u ''second block'')]"
proof -
  have c: "split_chunks (MAX_TEXT_LENGTH (example_env (\<lambda>crs. TimeoutError) True))
             [u ''first block'' @ [10], u ''second block''] =
           [u ''first block'' @ [10, 10, 10] @ u ''second block'']"
    by (simp add: split_chunks_def example_env_def strip_def isspace_def)
  have d: "\<forall>k c t. send_message (example_env (\<lambda>crs. TimeoutError) True) k c t"
    by (simp add: example_env_def)
  show ?thesis
    using send_long_message_chunks [of "[u ''first block'' @ [10], u ''second block'']" 4096
        "example_env (\<lambda>crs. TimeoutError) True" "example_world []" 7 "u ''T''"] d
    unfolding c by (simp add: example_world_def)
qed

section \<open>Properties of the notifier and the scheduler\<close>

lemma cache_get_frame:
  "subscriptions (snd (cache_get ev w crs sid)) = subscriptions w \<and>
   sent (snd (cache_get ev w crs sid)) = sent w \<and>
   send_calls (snd (cache_get ev w crs sid)) = send_calls w"
  by (simp add: cache_get_def split: prod.splits)

lemma fetch_course_data_frame:
  "subscriptions (snd (fetch_course_data ev w crs sid uc)) = subscriptions w \<and>
   sent (snd (fetch_course_data ev w crs sid uc)) = sent w \<and>
   send_calls (snd (fetch_course_data ev w crs sid uc)) = send_calls w"
proof -
  obtain r w1 where g: "cache_get ev w crs sid = (r, w1)" by (cases "cache_get ev w crs sid")
  with cache_get_frame [of ev w crs sid]
  have "subscriptions w1 = subscriptions w \<and> sent w1 = sent w \<and> send_calls w1 = send_calls w"
    by simp
  then show ?thesis using g
    by (auto simp: fetch_course_data_def Let_def cache_set_def
        split: option.splits http_reply.splits)
qed

lemma fetch_and_filter_data_frame:
  "subscriptions (snd (fetch_and_filter_data ev w crs sid nums uc)) = subscriptions w \<and>
   sent (snd (fetch_and_filter_data ev w crs sid nums uc)) = sent w \<and>
   send_calls (snd (fetch_and_filter_data ev w crs sid nums uc)) = send_calls w"
  unfolding fetch_and_filter_data_snd by (rule fetch_course_data_frame)

lemma chunk_loop_nonempty:
  "chunks \<noteq> [] \<or> cur \<noteq> [] \<or> (\<exists>l\<in>set ls. l \<noteq> []) \<Longrightarrow> chunk_loop lim chunks cur ls \<noteq> []"
proof (induction ls arbitrary: chunks cur)
  case Nil
  then show ?case by auto
next
  case (Cons l ls)
  let ?lws = "(if cur \<noteq> [] then [10, 10] else []) @ l"
  show ?case
  proof (cases "length cur + length ?lws > lim")
    case True
    have "chunk_loop lim (chunks @ [strip cur]) l ls \<noteq> []" by (rule Cons.IH) simp
    with True show ?thesis by (simp add: Let_def)
  next
    case False
    have "chunk_loop lim chunks (cur @ ?lws) ls \<noteq> []"
      using Cons.prems by (intro Cons.IH) auto
    with False show ?thesis by (simp add: Let_def)
  qed
qed

lemma split_compose_nonempty:
  "split_chunks lim (compose_update_lines crs chs sfx) \<noteq> []"
  unfolding split_chunks_def
  by (rule chunk_loop_nonempty) (simp add: compose_update_lines_def)

lemma bot_send_frame:
  "subscriptions (snd (bot_send ev w chat text)) = subscriptions w \<and>
   requests (snd (bot_send ev w chat text)) = requests w \<and>
   send_calls (snd (bot_send ev w chat text)) = Suc (send_calls w)"
  by (simp add: bot_send_def Let_def)

lemma send_chunks_frame:
  "subscriptions (snd (send_chunks ev chat title n idx cs w)) = subscriptions w \<and>
   requests (snd (send_chunks ev chat title n idx cs w)) = requests w \<and>
   (cs \<noteq> [] \<longrightarrow> send_calls w < send_calls (snd (send_chunks ev chat title n idx cs w))) \<and>
   send_calls w \<le> send_calls (snd (send_chunks ev chat title n idx cs w))"
proof (induction cs arbitrary: idx w)
  case Nil
  show ?case by simp
next
  case (Cons c cs)
  obtain ok w1 where b: "bot_send ev w chat (full_message title n idx c) = (ok, w1)"
    by (cases "bot_send ev w chat (full_message title n idx c)")
  with bot_send_frame [of ev w chat "full_message title n idx c"]
  have f1: "subscriptions w1 = subscriptions w" "requests w1 = requests w"
    "send_calls w1 = Suc (send_calls w)" by simp_all
  show ?case
  proof (cases ok)
    case True
    with b f1 Cons [of "Suc idx" w1] show ?thesis by auto
  next
    case False
    let ?t = "[10060] @ u '' Error sending status update for '' @ title @
              u ''. Please try again later.''"
    obtain ok2 w2 where b2: "bot_send ev w1 chat ?t = (ok2, w2)"
      by (cases "bot_send ev w1 chat ?t")
    with bot_send_frame [of ev w1 chat ?t]
    have f2: "subscriptions w2 = subscriptions w1" "requests w2 = requests w1"
      "send_calls w2 = Suc (send_calls w1)"
      by simp_all
    from False b b2 f1 f2 show ?thesis by (cases ok2) auto
  qed
qed



lemma send_long_message_frame:
  "subscriptions (snd (send_long_message ev w chat ls title)) = subscriptions w \<and>
   requests (snd (send_long_message ev w chat ls title)) = requests w \<and>
   (split_chunks (MAX_TEXT_LENGTH ev) ls \<noteq> [] \<longrightarrow>
      send_calls w < send_calls (snd (send_long_message ev w chat ls title)))"
  using send_chunks_frame by (simp add: send_long_message_def Let_def)

lemma send_long_message_all_fail:
  assumes "\<forall>k c t. \<not> send_message ev k c t"
    and "split_chunks (MAX_TEXT_LENGTH ev) ls \<noteq> []"
  shows "fst (send_long_message ev w chat ls title) = Inl TelegramError"
proof -
  obtain c cs where c: "split_chunks (MAX_TEXT_LENGTH ev) ls = c # cs"
    using assms(2) by (cases "split_chunks (MAX_TEXT_LENGTH ev) ls") auto
  show ?thesis
    using assms(1) by (simp add: send_long_message_def c bot_send_def Let_def)
qed


lemma process_course_updates_fetched:
  assumes "fetch_and_filter_data ev w (ti_course ti) (student_id ti)
             (if \<not> track_all ti then Some (class_numbers ti) else None) True =
           (Inr (Some cur), w1)"
  shows "process_course_updates ev w ti pd =
     (let chs = diff_courses (case map_of pd (get_data_key ti) of None \<Rightarrow> [] | Some p \<Rightarrow> p) cur
      in if any_changes chs
         then (case send_long_message ev w1 (chat_id ti)
                      (compose_update_lines (ti_course ti) chs (title_suffix ti))
                      (u ''Updates for '' @ ti_course ti @ title_suffix ti) of
                 (Inl e, w2) \<Rightarrow> (Inl e, w2)
               | (Inr x, w2) \<Rightarrow> (Inr (Some cur), w2))
         else (Inr (Some cur), w1))"
  using assms by (simp add: process_course_updates_def Let_def)

lemma process_course_updates_raised:
  assumes "fetch_and_filter_data ev w (ti_course ti) (student_id ti)
             (if \<not> track_all ti then Some (class_numbers ti) else None) True = (Inl e, w1)"
  shows "process_course_updates ev w ti pd = (Inr None, w1)"
  using assms by (simp add: process_course_updates_def Let_def)



lemma process_item_blocked_lemma:
  assumes s: "map_of (subscriptions w) (chat_id ti) = Some prefs"
    and f: "fetch_and_filter_data ev w (ti_course ti) (student_id ti)
             (if \<not> track_all ti then Some (class_numbers ti) else None) True =
           (Inl CloudflareBlockedError, w1)"
  shows "process_item ev w ti = (Inr (), w1) \<and> subscriptions w1 = subscriptions w \<and>
         sent w1 = sent w \<and> send_calls w1 = send_calls w \<and>
         process_items ev w (ti # rest) = process_items ev w1 rest"
proof -
  have pi: "process_item ev w ti = (Inr (), w1)"
    using process_course_updates_raised [OF f] s by (simp add: process_item_def)
  have "subscriptions w1 = subscriptions w \<and> sent w1 = sent w \<and> send_calls w1 = send_calls w"
    using fetch_and_filter_data_frame [of ev w "ti_course ti" "student_id ti"
        "if \<not> track_all ti then Some (class_numbers ti) else None" True] f by simp
  with pi show ?thesis by simp
qed

lemma process_item_send_fails:
  assumes s: "map_of (subscriptions w) (chat_id ti) = Some prefs"
    and f: "fetch_and_filter_data ev w (ti_course ti) (student_id ti)
             (if \<not> track_all ti then Some (class_numbers ti) else None) True =
           (Inr (Some cur), w1)"
    and a: "any_changes (diff_courses
              (case map_of (previous_data prefs) (get_data_key ti) of None \<Rightarrow> [] | Some p \<Rightarrow> p)
              cur)"
    and d: "\<forall>k c t. \<not> send_message ev k c t"
  shows "fst (process_item ev w ti) = Inl TelegramError \<and>
         subscriptions (snd (process_item ev w ti)) = subscriptions w \<and>
         requests (snd (process_item ev w ti)) = requests w1"
proof -
  let ?chs = "diff_courses
      (case map_of (previous_data prefs) (get_data_key ti) of None \<Rightarrow> [] | Some p \<Rightarrow> p) cur"
  let ?ls = "compose_update_lines (ti_course ti) ?chs (title_suffix ti)"
  let ?title = "u ''Updates for '' @ ti_course ti @ title_suffix ti"
  let ?send = "send_long_message ev w1 (chat_id ti) ?ls ?title"
  have ne: "split_chunks (MAX_TEXT_LENGTH ev) ?ls \<noteq> []" by (rule split_compose_nonempty)
  obtain r w2 where r: "?send = (r, w2)" by (cases ?send)
  have r1: "r = Inl TelegramError"
    using send_long_message_all_fail [OF d ne, of w1 "chat_id ti" ?title] r by simp
  have fr: "subscriptions w2 = subscriptions w1" "requests w2 = requests w1"
    using send_long_message_frame [of ev w1 "chat_id ti" ?ls ?title] r by simp_all
  have "subscriptions w1 = subscriptions w"
    using fetch_and_filter_data_frame [of ev w "ti_course ti" "student_id ti"
        "if \<not> track_all ti then Some (class_numbers ti) else None" True] f by simp
  moreover have "process_item ev w ti = (Inl TelegramError, w2)"
    using process_course_updates_fetched [OF f, of "previous_data prefs"] a r r1 s
    by (simp add: process_item_def)
  ultimately show ?thesis using fr by simp
qed


lemma process_items_first_raises:
  "fst (process_item ev w ti) = Inl e \<Longrightarrow>
   process_items ev w (ti # rest) = (Inl e, snd (process_item ev w ti))"
  by (cases "process_item ev w ti") auto

lemma process_items_single:
  "snd (process_items ev w [ti]) = snd (process_item ev w ti)"
  by (cases "process_item ev w ti") (auto split: sum.splits)

lemma example_fetch:
  "fst (fetch_and_filter_data (example_env (\<lambda>crs. Response 200 (Some d)) b)
          (example_world subs) crs sid None True) = Inr (Some d) \<and>
   requests (snd (fetch_and_filter_data (example_env (\<lambda>crs. Response 200 (Some d)) b)
          (example_world subs) crs sid None True)) = [(crs, sid)]"
  by (simp add: fetch_and_filter_data_def fetch_course_data_def cache_get_def cache_set_def
      CacheService_get_def CacheService_init_def example_env_def example_world_def
      filter_sections_def)

lemma example_fetch_blocked:
  "fetch_and_filter_data (example_env (blocked_for ''CSOPESY'') True)
     (example_world [(7, subscriber ''123'' [''CSOPESY'', ''STALGCM''] [(u ''STALGCM'', two_sections)])])
     (u ''CSOPESY'') (u ''123'') None True =
   (Inl CloudflareBlockedError,
    (example_world [(7, subscriber ''123'' [''CSOPESY'', ''STALGCM''] [(u ''STALGCM'', two_sections)])])
      \<lparr>cache_svc := (CacheService_init 60)\<lparr>misses := 1\<rparr>,
        requests := [(u ''CSOPESY'', u ''123'')]\<rparr>)"
  by (simp add: fetch_and_filter_data_def fetch_course_data_def cache_get_def
      CacheService_get_def CacheService_init_def example_env_def example_world_def
      blocked_for_def)











text \<open>
  C2, as the claim states it, fails: \<open>process_course_updates\<close> catches the block and
  returns \<open>None\<close>, and the loop goes on to the next item, which may be of the same
  subscriber. Here the subscriber tracks CSOPESY and STALGCM, the fetch of CSOPESY is
  blocked, and STALGCM is fetched all the same.
\<close>

theorem broadcast_updates_blocked_counterexample:
  "requests (snd (broadcast_updates (example_env (blocked_for ''CSOPESY'') True)
     (example_world [(7, subscriber ''123'' [''CSOPESY'', ''STALGCM''] [(u ''STALGCM'', two_sections)])]))) =
   [(u ''CSOPESY'', u ''123''), (u ''STALGCM'', u ''123'')]"
proof -
  let ?ev = "example_env (blocked_for ''CSOPESY'') True"
  let ?p = "subscriber ''123'' [''CSOPESY'', ''STALGCM''] [(u ''STALGCM'', two_sections)]"
  let ?w = "example_world [(7, ?p)]"
  let ?w1 = "?w\<lparr>cache_svc := (CacheService_init 60)\<lparr>misses := 1\<rparr>,
               requests := [(u ''CSOPESY'', u ''123'')]\<rparr>"
  let ?ti = "whole_course 7 ''123'' ''CSOPESY''"
  let ?tj = "whole_course 7 ''123'' ''STALGCM''"
  let ?g = "fetch_and_filter_data ?ev ?w1 (ti_course ?tj) (student_id ?tj)
           (if \<not> track_all ?tj then Some (class_numbers ?tj) else None) True"
  have i: "all_tracking_infos ?w = [?ti, ?tj]"
    by (simp add: all_tracking_infos_def tracking_infos_of_def example_world_def subscriber_def
        whole_course_def)
  have s: "map_of (subscriptions ?w) (chat_id ?ti) = Some ?p"
    by (simp add: example_world_def whole_course_def)
  have f: "fetch_and_filter_data ?ev ?w (ti_course ?ti) (student_id ?ti)
           (if \<not> track_all ?ti then Some (class_numbers ?ti) else None) True =
         (Inl CloudflareBlockedError, ?w1)"
    using example_fetch_blocked by (simp add: whole_course_def)
  have b: "broadcast_updates ?ev ?w = process_items ?ev ?w1 [?tj]"
    unfolding broadcast_updates_def i
    using process_item_blocked_lemma [OF s f, of "[?tj]"] by (simp add: example_world_def)
  have g: "fst ?g = Inr (Some two_sections) \<and> requests (snd ?g) =
      [(u ''CSOPESY'', u ''123''), (u ''STALGCM'', u ''123'')]"
    by (simp add: fetch_and_filter_data_def fetch_course_data_def cache_get_def cache_set_def
      CacheService_get_def CacheService_init_def example_env_def example_world_def
      filter_sections_def blocked_for_def whole_course_def get_cache_key_def)
  then have g': "?g = (Inr (Some two_sections), snd ?g)" by (metis prod.collapse)
  have nc: "\<not> any_changes (diff_courses two_sections two_sections)"
    by (simp add: any_changes_def diff_courses_def by_number_def enrollment_change_def
        two_sections_def sec_def)
  have s1: "map_of (subscriptions ?w1) (chat_id ?tj) = Some ?p"
    by (simp add: example_world_def whole_course_def)
  have pd: "map_of (previous_data ?p) (get_data_key ?tj) = Some two_sections"
    by (simp add: subscriber_def get_data_key_def whole_course_def)
  have "process_course_updates ?ev ?w1 ?tj (previous_data ?p) = (Inr (Some two_sections), snd ?g)"
    using process_course_updates_fetched [OF g', of "previous_data ?p"] pd nc by simp
  then have "requests (snd (process_item ?ev ?w1 ?tj)) = requests (snd ?g)"
    using s1 by (simp add: process_item_def)
  then show ?thesis
    unfolding b process_items_single using g by simp
qed

text \<open>
  C2, amended. When the fetch of a tracked item raises the upstream-blocked error, that
  item alone is skipped: nothing is sent, the subscriptions stay as they were, and the
  cycle goes on with every remaining item, those of the same subscriber included.
\<close>

theorem process_item_blocked:
  assumes "map_of (subscriptions w) (chat_id ti) = Some prefs"
    and "fetch_and_filter_data ev w (ti_course ti) (student_id ti)
           (if \<not> track_all ti then Some (class_numbers ti) else None) True =
         (Inl CloudflareBlockedError, w1)"
  shows "process_item ev w ti = (Inr (), w1) \<and> subscriptions w1 = subscriptions w \<and>
         sent w1 = sent w \<and> send_calls w1 = send_calls w \<and>
         process_items ev w (ti # rest) = process_items ev w1 rest"
  using assms by (rule process_item_blocked_lemma)

theorem process_item_blocked_witness:
  "process_items (example_env (blocked_for ''CSOPESY'') True)
     (example_world [(7, subscriber ''123'' [''CSOPESY'', ''STALGCM''] [(u ''STALGCM'', two_sections)])])
     [whole_course 7 ''123'' ''CSOPESY'', whole_course 7 ''123'' ''STALGCM''] =
   process_items (example_env (blocked_for ''CSOPESY'') True)
     ((example_world [(7, subscriber ''123'' [''CSOPESY'', ''STALGCM''] [(u ''STALGCM'', two_sections)])])
        \<lparr>cache_svc := (CacheService_init 60)\<lparr>misses := 1\<rparr>,
          requests := [(u ''CSOPESY'', u ''123'')]\<rparr>)
     [whole_course 7 ''123'' ''STALGCM'']"
proof -
  let ?ev = "example_env (blocked_for ''CSOPESY'') True"
  let ?p = "subscriber ''123'' [''CSOPESY'', ''STALGCM''] [(u ''STALGCM'', two_sections)]"
  let ?w = "example_world [(7, ?p)]"
  let ?ti = "whole_course 7 ''123'' ''CSOPESY''"
  have s: "map_of (subscriptions ?w) (chat_id ?ti) = Some ?p"
    by (simp add: example_world_def whole_course_def)
  have f: "fetch_and_filter_data ?ev ?w (ti_course ?ti) (student_id ?ti)
           (if \<not> track_all ?ti then Some (class_numbers ?ti) else None) True =
         (Inl CloudflareBlockedError,
          ?w\<lparr>cache_svc := (CacheService_init 60)\<lparr>misses := 1\<rparr>,
             requests := [(u ''CSOPESY'', u ''123'')]\<rparr>)"
    using example_fetch_blocked by (simp add: whole_course_def)
  show ?thesis
    using process_item_blocked [OF s f, of "[whole_course 7 ''123'' ''STALGCM'']"] by simp
qed

text \<open>
  C9. The claim holds of a failure of a later chunk, but not of the first: the handler of
  \<open>send_long_message\<close> then sends an error notice outside any \<open>try\<close>. With a bot whose
  sends all raise (the subscriber has blocked it), the error leaves the wrapper and the
  whole cycle: the changed snapshot of subscriber 7 is not stored, and subscriber 8 is
  never fetched.
\<close>

theorem broadcast_updates_delivery_failure:
  "fst (broadcast_updates (example_env (\<lambda>crs. Response 200 (Some two_sections)) False)
     (example_world
        [(7, subscriber ''123'' [''CSOPESY'']
               [(u ''CSOPESY'', [sec ''CSOPESY'' ''S11'' (Some 1111) (Some (PInt 19))])]),
         (8, subscriber ''456'' [''STALGCM''] [])])) = Inl TelegramError \<and>
   subscriptions (snd (broadcast_updates
     (example_env (\<lambda>crs. Response 200 (Some two_sections)) False)
     (example_world
        [(7, subscriber ''123'' [''CSOPESY'']
               [(u ''CSOPESY'', [sec ''CSOPESY'' ''S11'' (Some 1111) (Some (PInt 19))])]),
         (8, subscriber ''456'' [''STALGCM''] [])]))) =
     [(7, subscriber ''123'' [''CSOPESY'']
            [(u ''CSOPESY'', [sec ''CSOPESY'' ''S11'' (Some 1111) (Some (PInt 19))])]),
      (8, subscriber ''456'' [''STALGCM''] [])] \<and>
   requests (snd (broadcast_updates
     (example_env (\<lambda>crs. Response 200 (Some two_sections)) False)
     (example_world
        [(7, subscriber ''123'' [''CSOPESY'']
               [(u ''CSOPESY'', [sec ''CSOPESY'' ''S11'' (Some 1111) (Some (PInt 19))])]),
         (8, subscriber ''456'' [''STALGCM''] [])]))) = [(u ''CSOPESY'', u ''123'')]"
proof -
  let ?ev = "example_env (\<lambda>crs. Response 200 (Some two_sections)) False"
  let ?p = "subscriber ''123'' [''CSOPESY'']
               [(u ''CSOPESY'', [sec ''CSOPESY'' ''S11'' (Some 1111) (Some (PInt 19))])]"
  let ?w = "example_world [(7, ?p), (8, subscriber ''456'' [''STALGCM''] [])]"
  let ?ti = "whole_course 7 ''123'' ''CSOPESY''"
  let ?tj = "whole_course 8 ''456'' ''STALGCM''"
  let ?f = "fetch_and_filter_data ?ev ?w (ti_course ?ti) (student_id ?ti)
           (if \<not> track_all ?ti then Some (class_numbers ?ti) else None) True"
  have i: "all_tracking_infos ?w = [?ti, ?tj]"
    by (simp add: all_tracking_infos_def tracking_infos_of_def example_world_def subscriber_def
        whole_course_def)
  have s: "map_of (subscriptions ?w) (chat_id ?ti) = Some ?p"
    by (simp add: example_world_def whole_course_def)
  have ff: "fst ?f = Inr (Some two_sections)" "requests (snd ?f) = [(u ''CSOPESY'', u ''123'')]"
    using example_fetch [of two_sections False] by (simp_all add: whole_course_def)
  then have f: "?f = (Inr (Some two_sections), snd ?f)" by (metis prod.collapse)
  have a: "any_changes (diff_courses
              (case map_of (previous_data ?p) (get_data_key ?ti) of None \<Rightarrow> [] | Some p \<Rightarrow> p)
              two_sections)"
    by (simp add: subscriber_def get_data_key_def whole_course_def any_changes_def
        diff_courses_def by_number_def enrollment_change_def two_sections_def sec_def)
  have d: "\<forall>k c t. \<not> send_message ?ev k c t" by (simp add: example_env_def)
  note r = process_item_send_fails [OF s f a d]
  have "broadcast_updates ?ev ?w = (Inl TelegramError, snd (process_item ?ev ?w ?ti))"
    unfolding broadcast_updates_def i
    using process_items_first_raises [of ?ev ?w ?ti TelegramError "[?tj]"] r
    by (simp add: example_world_def)
  then show ?thesis using r ff by (simp add: example_world_def)
qed

end
